theory Spec2Isabelle
  imports Complex_Main
begin

section \<open>Values shared by the services\<close>

text \<open>
  An awaited external call either yields a value or rejects with an error object.
  A rejection is the left summand of a sum type, so that every \<^verbatim>\<open>try/catch\<close> of the
  source is a case distinction of the model.
\<close>

datatype error = Error string

type_synonym 'a result = "error + 'a"

text \<open>
  The \<^verbatim>\<open>Logger\<close> of \<^verbatim>\<open>src/utils/logger.ts\<close> prints one line per call. The model keeps
  the level and the message text (pictographs left out, further arguments such as the
  error object left out).
\<close>

datatype level = INFO | WARN | ERROR | SUCCESS | LOG

type_synonym log_line = "level \<times> string"

text \<open>
  The configuration module \<^verbatim>\<open>./config\<close> is not part of the sources; the fields the
  code reads are parameters of the model.
\<close>

record config =
  concurrent_transactions :: int
  simulation_mode :: bool
  wsol_pc_mint :: string

text \<open>
  The external collaborators, as they answer while one handler runs:
  \<^verbatim>\<open>getRugCheckConfirmed\<close>, the price request of \<^verbatim>\<open>getCurrentPrice\<close> (the field
  \<^verbatim>\<open>response.data?.data?.[tokenAddress]?.price\<close>, \<open>None\<close> when it is undefined),
  \<^verbatim>\<open>createSwapTransaction\<close> (a transaction id or \<^verbatim>\<open>null\<close>), the transfer query of
  \<^verbatim>\<open>checkDevSold\<close> (the value of the \<^verbatim>\<open>some(...)\<close> test over the response),
  \<^verbatim>\<open>fetchAndSaveSwapDetails\<close> and \<^verbatim>\<open>Date.now()\<close>.
  Prices are JavaScript numbers; the model takes them as real numbers.
\<close>

record env =
  now :: int
  getRugCheckConfirmed :: "string \<Rightarrow> bool result"
  priceRequest :: "string \<Rightarrow> real option result"
  createSwapTransaction :: "string option \<Rightarrow> string \<Rightarrow> string option result"
  devSoldRequest :: "string \<Rightarrow> bool result"
  fetchAndSaveSwapDetails :: "string \<Rightarrow> bool result"

section \<open>The token table (\<^verbatim>\<open>DatabaseService\<close>)\<close>

datatype status = Active | Inactive

record TokenTrack =
  tokenAddress :: string
  timestamp :: int
  price :: real
  lastCheck :: int
  status :: status

text \<open>
  The table \<^verbatim>\<open>tokens\<close> is the list of its rows in insertion order. Its primary key is
  \<^verbatim>\<open>tokenAddress\<close>: \<^verbatim>\<open>INSERT OR REPLACE\<close> deletes the rows that hold the new key and
  appends the new row. The statements are taken to succeed (the store is reliable).
\<close>

definition DatabaseService_addToken :: "TokenTrack \<Rightarrow> TokenTrack list \<Rightarrow> TokenTrack list" where
  "DatabaseService_addToken token rows =
     filter (\<lambda>r. tokenAddress r \<noteq> tokenAddress token) rows @ [token]"

definition getToken :: "string \<Rightarrow> TokenTrack list \<Rightarrow> TokenTrack option" where
  "getToken addr rows = find (\<lambda>r. tokenAddress r = addr) rows"

definition updateTokenStatus :: "string \<Rightarrow> status \<Rightarrow> int \<Rightarrow> TokenTrack list \<Rightarrow> TokenTrack list" where
  "updateTokenStatus addr st date_now rows =
     map (\<lambda>r. if tokenAddress r = addr then r\<lparr>status := st, lastCheck := date_now\<rparr> else r) rows"

definition updateTokenPrice :: "string \<Rightarrow> real \<Rightarrow> int \<Rightarrow> TokenTrack list \<Rightarrow> TokenTrack list" where
  "updateTokenPrice addr p date_now rows =
     map (\<lambda>r. if tokenAddress r = addr then r\<lparr>price := p, lastCheck := date_now\<rparr> else r) rows"

definition getActiveTokens :: "TokenTrack list \<Rightarrow> TokenTrack list" where
  "getActiveTokens rows = filter (\<lambda>r. status r = Active) rows"

definition cleanupOldTokens :: "int \<Rightarrow> int \<Rightarrow> TokenTrack list \<Rightarrow> TokenTrack list" where
  "cleanupOldTokens maxAgeHours date_now rows =
     (let cutoffTime = date_now - maxAgeHours * 60 * 60 * 1000
      in filter (\<lambda>r. \<not> (lastCheck r < cutoffTime \<and> status r = Inactive)) rows)"

section \<open>The state of the process\<close>

text \<open>
  The mutable state the handlers share: the token table, the module variable
  \<^verbatim>\<open>activeTransactions\<close>, the addresses whose \<^verbatim>\<open>processTransaction\<close> promise has not
  settled yet, every call of \<^verbatim>\<open>createSwapTransaction\<close> made so far with its two
  arguments (a buy has no source mint), and the log.
\<close>

record state =
  tokens :: "TokenTrack list"
  activeTransactions :: int
  pending :: "string list"
  swaps :: "(string option \<times> string) list"
  logs :: "log_line list"

definition logger :: "level \<Rightarrow> string \<Rightarrow> state \<Rightarrow> state" where
  "logger lv msg s = s\<lparr>logs := logs s @ [(lv, msg)]\<rparr>"

definition loggers :: "log_line list \<Rightarrow> state \<Rightarrow> state" where
  "loggers ls s = s\<lparr>logs := logs s @ ls\<rparr>"

definition swapCalled :: "string option \<Rightarrow> string \<Rightarrow> state \<Rightarrow> state" where
  "swapCalled src dst s = s\<lparr>swaps := swaps s @ [(src, dst)]\<rparr>"

section \<open>\<^verbatim>\<open>TokenMonitorService\<close>\<close>

text \<open>
  The service is modelled as its first version in \<^verbatim>\<open>services/token-monitor.service.ts\<close>
  (the one over \<^verbatim>\<open>DatabaseService\<close>, lines 1 to 225). The last version in that file
  has the same control flow and adds metadata columns and log lines. Each definition below
  is one method; \<^verbatim>\<open>Date.now()\<close> has one value while a handler runs.
\<close>

definition TOKEN_MAX_AGE_HOURS :: int where
  "TOKEN_MAX_AGE_HOURS = 72"

definition addToken :: "env \<Rightarrow> string \<Rightarrow> real \<Rightarrow> state \<Rightarrow> state" where
  "addToken env addr p s =
     (let token = \<lparr>tokenAddress = addr, timestamp = now env, price = p,
                    lastCheck = now env, status = Active\<rparr>
      in logger INFO (''Added new token to monitor: '' @ addr)
           (s\<lparr>tokens := DatabaseService_addToken token (tokens s)\<rparr>))"

text \<open>
  \<^verbatim>\<open>return response.data?.data?.[tokenAddress]?.price || null\<close>: an undefined price and
  the number 0 are both falsy and become \<^verbatim>\<open>null\<close>; a rejected request is caught and
  becomes \<^verbatim>\<open>null\<close> too.
\<close>

definition getCurrentPrice :: "env \<Rightarrow> string \<Rightarrow> state \<Rightarrow> real option \<times> state" where
  "getCurrentPrice env addr s =
     (case priceRequest env addr of
        Inl e \<Rightarrow> (None, logger ERROR (''Error fetching price for token '' @ addr @ '':'') s)
      | Inr None \<Rightarrow> (None, s)
      | Inr (Some p) \<Rightarrow> (if p = 0 then None else Some p, s))"

definition checkDevSold :: "env \<Rightarrow> string \<Rightarrow> state \<Rightarrow> bool \<times> state" where
  "checkDevSold env addr s =
     (case devSoldRequest env addr of
        Inl e \<Rightarrow> (False, logger ERROR ''Error checking dev sales:'' s)
      | Inr sold \<Rightarrow> (sold, s))"

definition buyToken :: "env \<Rightarrow> string \<Rightarrow> state \<Rightarrow> state" where
  "buyToken env addr s =
     (case createSwapTransaction env None addr of
        Inl e \<Rightarrow> logger ERROR ''Error buying token:'' (swapCalled None addr s)
      | Inr tx \<Rightarrow> logger SUCCESS (''Bought token '' @ addr) (swapCalled None addr s))"

text \<open>
  \<^verbatim>\<open>((currentPrice - token.price) / token.price) * 100 > 200\<close>. Division by zero is
  written out as JavaScript computes it: with \<^verbatim>\<open>token.price\<close> zero the quotient is
  \<^verbatim>\<open>Infinity\<close> for a positive numerator (the test holds), \<^verbatim>\<open>-Infinity\<close> or
  \<^verbatim>\<open>NaN\<close> otherwise (the test fails).
\<close>

definition priceIncreaseOver200 :: "real \<Rightarrow> real \<Rightarrow> bool" where
  "priceIncreaseOver200 currentPrice tokenPrice =
     (if tokenPrice = 0 then 0 < currentPrice
      else 200 < ((currentPrice - tokenPrice) / tokenPrice) * 100)"

text \<open>
  \<^verbatim>\<open>checkToken\<close> receives the row as it was read at the start of the poll cycle. All
  calls that can reject are caught inside the helpers, so the outer \<^verbatim>\<open>catch\<close> is never
  entered.
\<close>

definition checkToken :: "env \<Rightarrow> TokenTrack \<Rightarrow> state \<Rightarrow> state" where
  "checkToken env token s =
     (let (currentPrice, s1) = getCurrentPrice env (tokenAddress token) s;
          s2 = (case currentPrice of
                  None \<Rightarrow> s1
                | Some cp \<Rightarrow>
                    (let s1' = s1\<lparr>tokens :=
                                 updateTokenPrice (tokenAddress token) cp (now env) (tokens s1)\<rparr>
                     in if priceIncreaseOver200 cp (price token)
                        then buyToken env (tokenAddress token) s1' else s1'));
          (devSold, s3) = checkDevSold env (tokenAddress token) s2
      in if devSold
         then logger WARN (''Developer sold tokens for '' @ tokenAddress token @ '', marking as inactive'')
                (s3\<lparr>tokens := updateTokenStatus (tokenAddress token) Inactive (now env) (tokens s3)\<rparr>)
         else s3)"

text \<open>The body of the interval callback of \<^verbatim>\<open>startMonitoring\<close>: one poll cycle.\<close>

primrec checkTokens :: "env \<Rightarrow> TokenTrack list \<Rightarrow> state \<Rightarrow> state" where
  "checkTokens env [] s = s"
| "checkTokens env (token # rest) s = checkTokens env rest (checkToken env token s)"

definition pollCycle :: "env \<Rightarrow> state \<Rightarrow> state" where
  "pollCycle env s = checkTokens env (getActiveTokens (tokens s)) s"

text \<open>
  \<^verbatim>\<open>txDetails\<close> is untyped in the source: it may be missing, and its \<^verbatim>\<open>mint\<close> may be
  missing or empty; all of these are falsy.
\<close>

record txDetails =
  mint :: "string option"

definition mintOf :: "txDetails option \<Rightarrow> string option" where
  "mintOf d = (case d of
                 None \<Rightarrow> None
               | Some t \<Rightarrow> (case mint t of
                              None \<Rightarrow> None
                            | Some m \<Rightarrow> if m = [] then None else Some m))"

text \<open>
  The result is how the promise of the handler settles: \<open>Inr ()\<close> when it resolves,
  \<open>Inl e\<close> when an exception leaves the handler. The rug check is the only call here
  that can reject without being caught in a helper; its own \<^verbatim>\<open>catch\<close> logs and returns.
\<close>

definition handleNewTokenFromWebsocket :: "env \<Rightarrow> txDetails option \<Rightarrow> state \<Rightarrow> unit result \<times> state" where
  "handleNewTokenFromWebsocket env d s =
     (case mintOf d of
        None \<Rightarrow> (Inr (), logger ERROR ''Invalid transaction details received'' s)
      | Some m \<Rightarrow>
          (case getToken m (tokens s) of
             Some existingToken \<Rightarrow>
               (Inr (), logger INFO (''Token '' @ m @ '' already being monitored'') s)
           | None \<Rightarrow>
               (case getRugCheckConfirmed env m of
                  Inl rugCheckError \<Rightarrow>
                    (Inr (), logger ERROR (''Failed to perform rug check for token '' @ m @ '':'') s)
                | Inr isRugCheckPassed \<Rightarrow>
                    if \<not> isRugCheckPassed
                    then (Inr (), logger WARN ''Rug Check not passed! Token not added.'' s)
                    else (let s1 = logger INFO (''Rug check passed for token '' @ m) s;
                              (currentPrice, s2) = getCurrentPrice env m s1
                          in case currentPrice of
                               None \<Rightarrow> (Inr (), s2)
                             | Some p \<Rightarrow> (Inr (), addToken env m p s2)))))"


text \<open>The loop of \<^verbatim>\<open>setCorrectToken\<close> over the active rows read before it starts.\<close>

primrec sellIncorrect :: "env \<Rightarrow> config \<Rightarrow> string \<Rightarrow> TokenTrack list \<Rightarrow> state \<Rightarrow> state" where
  "sellIncorrect env cfg correct [] s = s"
| "sellIncorrect env cfg correct (token # rest) s =
     sellIncorrect env cfg correct rest
       (if tokenAddress token \<noteq> correct
        then (case createSwapTransaction env (Some (tokenAddress token)) (wsol_pc_mint cfg) of
                Inl e \<Rightarrow>
                  logger ERROR (''Error selling token '' @ tokenAddress token @ '':'')
                    (swapCalled (Some (tokenAddress token)) (wsol_pc_mint cfg) s)
              | Inr tx \<Rightarrow>
                  (let s1 = logger INFO (''Sold incorrect token '' @ tokenAddress token)
                              (swapCalled (Some (tokenAddress token)) (wsol_pc_mint cfg) s)
                   in s1\<lparr>tokens := updateTokenStatus (tokenAddress token) Inactive (now env) (tokens s1)\<rparr>))
        else s)"

definition setCorrectToken :: "env \<Rightarrow> config \<Rightarrow> string \<Rightarrow> state \<Rightarrow> state" where
  "setCorrectToken env cfg correct s =
     (let s0 = logger INFO (''Setting correct token: '' @ correct) s;
          activeTokens = getActiveTokens (tokens s0);
          s1 = sellIncorrect env cfg correct activeTokens s0
      in case getToken correct (tokens s1) of
           Some correctToken \<Rightarrow> s1
         | None \<Rightarrow>
             (let (currentPrice, s2) = getCurrentPrice env correct s1
              in case currentPrice of
                   None \<Rightarrow> s2
                 | Some p \<Rightarrow> buyToken env correct (addToken env correct p s2)))"

definition cleanup :: "int \<Rightarrow> state \<Rightarrow> state" where
  "cleanup date_now s = s\<lparr>tokens := cleanupOldTokens TOKEN_MAX_AGE_HOURS date_now (tokens s)\<rparr>"

section \<open>The signal-driven dispatcher (\<^verbatim>\<open>processTransaction\<close>, \<^verbatim>\<open>onTokenReceived\<close>)\<close>

text \<open>
  \<^verbatim>\<open>processTransaction\<close> returns early on an empty address and in simulation mode;
  otherwise, after the initial delay, it calls
  \<^verbatim>\<open>createSwapTransaction(null, tokenAddress)\<close>. Nothing inside it catches, so a
  rejection of an awaited call rejects its promise. A transaction id that is \<^verbatim>\<open>null\<close>
  or empty is falsy. \<open>loggers\<close> prints several lines in order.
\<close>

definition processTransaction :: "config \<Rightarrow> env \<Rightarrow> string \<Rightarrow> state \<Rightarrow> unit result \<times> state" where
  "processTransaction cfg env addr s =
     (let s0 = loggers [(INFO, ''=============================================''),
                        (INFO, ''New Token Signal Received''),
                        (INFO, ''Processing token...'')] s
      in if addr = [] then (Inr (), s0)
         else (let s1 = loggers [(SUCCESS, ''Token found''),
                                 (INFO, ''GMGN: https://gmgn.ai/sol/token/'' @ addr),
                                 (INFO, ''BullX: https://neo.bullx.io/terminal?chainId=1399811149&address='' @ addr)]
                          s0
               in if simulation_mode cfg
                  then (Inr (), loggers [(WARN, ''Token not swapped. Simulation mode is enabled.''),
                                         (INFO, ''Resuming looking for new tokens..'' @ [CHR 0x0A])] s1)
                  else (case createSwapTransaction env None addr of
                          Inl e \<Rightarrow> (Inl e, swapCalled None addr s1)
                        | Inr tx \<Rightarrow>
                            (case (case tx of None \<Rightarrow> None | Some t \<Rightarrow> if t = [] then None else Some t) of
                               None \<Rightarrow>
                                 (Inr (), loggers [(ERROR, ''Transaction aborted.''),
                                                   (INFO, ''Resuming looking for new tokens...'' @ [CHR 0x0A])]
                                            (swapCalled None addr s1))
                             | Some t \<Rightarrow>
                                 (let s2 = loggers [(SUCCESS, ''Swapping SOL for Token.''),
                                                    (INFO, ''Swap Transaction: https://solscan.io/tx/'' @ t)]
                                             (swapCalled None addr s1)
                                  in case fetchAndSaveSwapDetails env t of
                                       Inl e \<Rightarrow> (Inl e, s2)
                                     | Inr saveConfirmation \<Rightarrow>
                                         (Inr (), if \<not> saveConfirmation
                                                  then logger ERROR ''Warning: Transaction not saved for tracking! Track Manually!'' s2
                                                  else s2))))))"

text \<open>
  The callback \<^verbatim>\<open>onTokenReceived\<close> runs in two atomic parts. The first, up to its
  \<^verbatim>\<open>await\<close>, tests the cap and increments the counter; other handlers may run before
  the second, which runs when the promise of \<^verbatim>\<open>processTransaction\<close> settles:
  \<^verbatim>\<open>.catch\<close> logs a rejection and \<^verbatim>\<open>.finally\<close> decrements the counter. The effects
  of \<^verbatim>\<open>processTransaction\<close> are placed at the moment its promise settles.
\<close>

definition onTokenReceived :: "config \<Rightarrow> string \<Rightarrow> state \<Rightarrow> state" where
  "onTokenReceived cfg addr s =
     (if concurrent_transactions cfg \<le> activeTransactions s
      then logger WARN ''Max concurrent transactions reached, skipping...'' s
      else s\<lparr>activeTransactions := activeTransactions s + 1, pending := pending s @ [addr]\<rparr>)"

definition settle :: "config \<Rightarrow> env \<Rightarrow> nat \<Rightarrow> state \<Rightarrow> unit result \<times> state" where
  "settle cfg env i s =
     (if i < length (pending s)
      then (let (r, s1) = processTransaction cfg env (pending s ! i) s;
                s2 = (case r of
                        Inl e \<Rightarrow> logger ERROR ''Error processing transaction:'' s1
                      | Inr u \<Rightarrow> s1)
            in (Inr (), s2\<lparr>activeTransactions := activeTransactions s2 - 1,
                            pending := take i (pending s2) @ drop (Suc i) (pending s2)\<rparr>))
      else (Inr (), s))"

section \<open>Runs of the process\<close>

text \<open>
  One event is one handler run: a pool creation reported by the websocket, a poll cycle, a
  correct-token designation, a cleanup sweep, a token signal, and the settling of the
  pending dispatch at a position. Each carries the answers of the outside world. The
  handlers of the monitor run one after the other, each to its end; only the dispatch of
  \<^verbatim>\<open>onTokenReceived\<close> is split at its \<^verbatim>\<open>await\<close>, so that other events can come
  between its start and its settling. A run is thus a schedule without overlap of monitor
  handlers. The source does not enforce this: an enrollment can be between its existence
  test and its write while other handlers run (\<open>enrollAfterTest\<close>), and the interval
  timer starts a poll cycle without waiting for the previous one, so that a cycle can
  check rows it read before the previous cycle wrote (\<open>checkTokens\<close> on rows read
  earlier). Statements that hold only without overlap say so.
\<close>

datatype event =
    NewToken env "txDetails option"
  | Poll env
  | CorrectToken env string
  | Cleanup int
  | TokenReceived string
  | Settled env nat

fun step :: "config \<Rightarrow> event \<Rightarrow> state \<Rightarrow> state" where
  "step cfg (NewToken env d) s = snd (handleNewTokenFromWebsocket env d s)"
| "step cfg (Poll env) s = pollCycle env s"
| "step cfg (CorrectToken env correct) s = setCorrectToken env cfg correct s"
| "step cfg (Cleanup date_now) s = cleanup date_now s"
| "step cfg (TokenReceived addr) s = onTokenReceived cfg addr s"
| "step cfg (Settled env i) s = snd (settle cfg env i s)"

primrec run :: "config \<Rightarrow> event list \<Rightarrow> state \<Rightarrow> state" where
  "run cfg [] s = s"
| "run cfg (e # es) s = run cfg es (step cfg e s)"

definition initial :: state where
  "initial = \<lparr>tokens = [], activeTransactions = 0, pending = [], swaps = [], logs = []\<rparr>"

section \<open>Address extraction (\<^verbatim>\<open>DexAnalyseManagerService\<close>, \<^verbatim>\<open>AnalyseManagerService\<close>)\<close>

text \<open>
  A message is a list of code units below 256. The character class
  \<^verbatim>\<open>[1-9A-HJ-NP-Za-km-z]\<close> is given by its ranges of character codes.
\<close>

definition isBase58 :: "char \<Rightarrow> bool" where
  "isBase58 c =
     (let n = (of_char c :: nat)
      in (49 \<le> n \<and> n \<le> 57) \<or> (65 \<le> n \<and> n \<le> 72) \<or> (74 \<le> n \<and> n \<le> 78) \<or>
         (80 \<le> n \<and> n \<le> 90) \<or> (97 \<le> n \<and> n \<le> 107) \<or> (109 \<le> n \<and> n \<le> 122))"

text \<open>\<^verbatim>\<open>/^[1-9A-HJ-NP-Za-km-z]{44}$/.test(line)\<close>\<close>

definition solanaAddressRegex :: "string \<Rightarrow> bool" where
  "solanaAddressRegex l = (length l = 44 \<and> list_all isBase58 l)"

text \<open>\<^verbatim>\<open>message.split('\n')\<close>: the pieces between line feeds, at least one piece.\<close>

fun split_lines :: "string \<Rightarrow> string list" where
  "split_lines [] = [[]]"
| "split_lines (c # cs) =
     (if c = CHR 0x0A then [] # split_lines cs
      else (case split_lines cs of
              [] \<Rightarrow> [[c]]
            | l # ls \<Rightarrow> (c # l) # ls))"

text \<open>
  \<^verbatim>\<open>String.prototype.trim\<close> strips white space and line terminators from both ends;
  below 256 these are the codes 9 to 13, 32 and 160.
\<close>

definition isWhiteSpace :: "char \<Rightarrow> bool" where
  "isWhiteSpace c = (let n = (of_char c :: nat) in (9 \<le> n \<and> n \<le> 13) \<or> n = 32 \<or> n = 160)"

definition trim :: "string \<Rightarrow> string" where
  "trim l = rev (dropWhile isWhiteSpace (rev (dropWhile isWhiteSpace l)))"

definition extractSolanaAddress :: "string \<Rightarrow> string option" where
  "extractSolanaAddress message = find solanaAddressRegex (map trim (split_lines message))"

text \<open>
  \<^verbatim>\<open>message.match(/[1-9A-HJ-NP-Za-km-z]{32,44}/)\<close>: the leftmost position where at least
  32 characters of the class follow each other; the greedy quantifier takes up to 44.
\<close>

fun extractTokenAddress :: "string \<Rightarrow> string option" where
  "extractTokenAddress [] = None"
| "extractTokenAddress (c # cs) =
     (let matched = takeWhile isBase58 (c # cs)
      in if 32 \<le> length matched then Some (take 44 matched) else extractTokenAddress cs)"

text \<open>
  What a call of \<^verbatim>\<open>analyseTelegramMessage\<close> emits: the calls of
  \<^verbatim>\<open>tokenMonitor.setCorrectToken\<close> and of the callback \<^verbatim>\<open>onTokenReceived\<close>, in
  order, and its log lines. The two flags say whether the monitor and the callback are set.
\<close>

datatype emitted = SetCorrectTokenCall string | OnTokenReceivedCall string

definition allowListed :: "string \<Rightarrow> bool" where
  "allowListed channelId = (channelId = ''1625691880'' \<or> channelId = ''1629064884'')"

definition DexAnalyseManagerService_analyseTelegramMessage ::
    "bool \<Rightarrow> string \<Rightarrow> string \<Rightarrow> string \<Rightarrow> emitted list \<times> log_line list" where
  "DexAnalyseManagerService_analyseTelegramMessage hasCallback message channelId channelName =
     (if allowListed channelId
      then (let l0 = [(LOG, ''Analysing DEX telegram message: '' @ message @ '' from channelId: '' @ channelId
                              @ '' and channelName: '' @ channelName)]
            in case (case extractSolanaAddress message of
                       None \<Rightarrow> None
                     | Some a \<Rightarrow> if a = [] then None else Some a) of
                 None \<Rightarrow> ([], l0 @ [(WARN, ''No token address found in message'')])
               | Some a \<Rightarrow>
                   (if hasCallback then [OnTokenReceivedCall a] else [],
                    l0 @ [(LOG, ''Token address found: '' @ a)]))
      else ([], []))"

definition AnalyseManagerService_analyseTelegramMessage ::
    "bool \<Rightarrow> bool \<Rightarrow> string \<Rightarrow> string \<Rightarrow> string \<Rightarrow> emitted list \<times> log_line list" where
  "AnalyseManagerService_analyseTelegramMessage hasMonitor hasCallback message channelId channelName =
     (if allowListed channelId
      then (let l0 = [(LOG, ''Analysing DEX telegram message: '' @ message @ '' from channelId: '' @ channelId
                              @ '' and channelName: '' @ channelName)]
            in case (case extractTokenAddress message of
                       None \<Rightarrow> None
                     | Some a \<Rightarrow> if a = [] then None else Some a) of
                 None \<Rightarrow> ([], l0 @ [(INFO, ''No token address found in message'')])
               | Some a \<Rightarrow>
                   ((if hasMonitor then [SetCorrectTokenCall a] else [])
                      @ (if hasCallback then [OnTokenReceivedCall a] else []),
                    l0 @ [(INFO, ''Extracted token address: '' @ a @ '' from '' @ channelName)]))
      else ([], []))"

section \<open>Notions used in the statements\<close>

text \<open>
  The counter equals the number of dispatches that have started and not settled, and
  stays within the cap.
\<close>

definition counter_inv :: "config \<Rightarrow> state \<Rightarrow> bool" where
  "counter_inv cfg s \<longleftrightarrow>
     activeTransactions s = int (length (pending s)) \<and>
     activeTransactions s \<le> concurrent_transactions cfg"

text \<open>
  The rows of the table that hold an address.
\<close>

definition rowsFor :: "string \<Rightarrow> TokenTrack list \<Rightarrow> TokenTrack list" where
  "rowsFor addr rows = filter (\<lambda>r. tokenAddress r = addr) rows"

text \<open>
  The status stored for an address: that of the row \<^verbatim>\<open>getToken\<close> finds.
\<close>

definition status_of :: "TokenTrack list \<Rightarrow> string \<Rightarrow> status option" where
  "status_of rows addr = map_option status (getToken addr rows)"

text \<open>
  The events that are discoveries, and those that are cleanup sweeps.
\<close>

definition isNewToken :: "event \<Rightarrow> bool" where
  "isNewToken e = (case e of NewToken env d \<Rightarrow> True | _ \<Rightarrow> False)"


text \<open>
  What \<^verbatim>\<open>getCurrentPrice\<close> and \<^verbatim>\<open>checkDevSold\<close> return for an address; the state
  they run in only receives their log lines (lemmas \<open>fst_getCurrentPrice\<close> and
  \<open>fst_checkDevSold\<close>).
\<close>

definition observedPrice :: "env \<Rightarrow> string \<Rightarrow> real option" where
  "observedPrice env addr =
     (case priceRequest env addr of
        Inl e \<Rightarrow> None
      | Inr None \<Rightarrow> None
      | Inr (Some p) \<Rightarrow> if p = 0 then None else Some p)"

definition devSold :: "env \<Rightarrow> string \<Rightarrow> bool" where
  "devSold env addr = (case devSoldRequest env addr of Inl e \<Rightarrow> False | Inr sold \<Rightarrow> sold)"

text \<open>
  What one \<^verbatim>\<open>checkToken\<close> does to the row of its token, and the buys it dispatches
  (lemmas \<open>tokens_checkToken\<close> and \<open>swaps_checkToken\<close>).
\<close>

definition polled :: "env \<Rightarrow> TokenTrack \<Rightarrow> TokenTrack" where
  "polled env r =
     (let r1 = (case observedPrice env (tokenAddress r) of
                  None \<Rightarrow> r
                | Some cp \<Rightarrow> r\<lparr>price := cp, lastCheck := now env\<rparr>)
      in if devSold env (tokenAddress r) then r1\<lparr>status := Inactive, lastCheck := now env\<rparr> else r1)"

definition buysFor :: "env \<Rightarrow> TokenTrack \<Rightarrow> (string option \<times> string) list" where
  "buysFor env token =
     (case observedPrice env (tokenAddress token) of
        None \<Rightarrow> []
      | Some cp \<Rightarrow> if priceIncreaseOver200 cp (price token) then [(None, tokenAddress token)] else [])"

text \<open>
  The number of buys of an address among the swap calls made so far.
\<close>

definition buyCount :: "string \<Rightarrow> state \<Rightarrow> nat" where
  "buyCount addr s = length (filter (\<lambda>c. c = (None, addr)) (swaps s))"

text \<open>
  Whether the sell of an address is rejected, what the sweep of \<^verbatim>\<open>setCorrectToken\<close>
  does to the row of a token it sells, and the state after that sweep.
\<close>

definition sellThrows :: "env \<Rightarrow> config \<Rightarrow> string \<Rightarrow> bool" where
  "sellThrows env cfg addr =
     (case createSwapTransaction env (Some addr) (wsol_pc_mint cfg) of Inl e \<Rightarrow> True | Inr t \<Rightarrow> False)"

definition sold :: "env \<Rightarrow> config \<Rightarrow> TokenTrack \<Rightarrow> TokenTrack" where
  "sold env cfg r =
     (if sellThrows env cfg (tokenAddress r) then r else r\<lparr>status := Inactive, lastCheck := now env\<rparr>)"

definition swept :: "env \<Rightarrow> config \<Rightarrow> string \<Rightarrow> state \<Rightarrow> state" where
  "swept env cfg correct s =
     sellIncorrect env cfg correct (getActiveTokens (tokens s))
       (logger INFO (''Setting correct token: '' @ correct) s)"

text \<open>
  The number of characters of the class that follow each other from a position of a
  message.
\<close>

definition base58Run :: "string \<Rightarrow> nat \<Rightarrow> nat" where
  "base58Run message i = length (takeWhile isBase58 (drop i message))"

section \<open>Example inputs\<close>

definition cfg_two :: config where
  "cfg_two = \<lparr>concurrent_transactions = 2, simulation_mode = False, wsol_pc_mint = ''WSOL''\<rparr>"

definition cfg_simulation :: config where
  "cfg_simulation = \<lparr>concurrent_transactions = 2, simulation_mode = True, wsol_pc_mint = ''WSOL''\<rparr>"

definition env_safe_priced :: "real \<Rightarrow> env" where
  "env_safe_priced p =
     \<lparr>now = 1000,
      getRugCheckConfirmed = (\<lambda>a. Inr True),
      priceRequest = (\<lambda>a. Inr (Some p)),
      createSwapTransaction = (\<lambda>src dst. Inr (Some ''tx'')),
      devSoldRequest = (\<lambda>a. Inr False),
      fetchAndSaveSwapDetails = (\<lambda>tx. Inr True)\<rparr>"

definition env_swap_rejects :: env where
  "env_swap_rejects =
     \<lparr>now = 5000,
      getRugCheckConfirmed = (\<lambda>a. Inr True),
      priceRequest = (\<lambda>a. Inr None),
      createSwapTransaction = (\<lambda>src dst. Inl (Error ''swap failed'')),
      devSoldRequest = (\<lambda>a. Inr False),
      fetchAndSaveSwapDetails = (\<lambda>tx. Inr True)\<rparr>"

definition env_rug_check_throws :: env where
  "env_rug_check_throws =
     \<lparr>now = 1000,
      getRugCheckConfirmed = (\<lambda>a. Inl (Error ''rug check request failed'')),
      priceRequest = (\<lambda>a. Inr (Some 1)),
      createSwapTransaction = (\<lambda>src dst. Inr (Some ''tx'')),
      devSoldRequest = (\<lambda>a. Inr False),
      fetchAndSaveSwapDetails = (\<lambda>tx. Inr True)\<rparr>"

definition env_price_zero :: env where
  "env_price_zero =
     \<lparr>now = 2000,
      getRugCheckConfirmed = (\<lambda>a. Inr True),
      priceRequest = (\<lambda>a. Inr (Some 0)),
      createSwapTransaction = (\<lambda>src dst. Inr (Some ''tx'')),
      devSoldRequest = (\<lambda>a. Inr False),
      fetchAndSaveSwapDetails = (\<lambda>tx. Inr True)\<rparr>"

definition env_dev_sold :: env where
  "env_dev_sold =
     \<lparr>now = 2000,
      getRugCheckConfirmed = (\<lambda>a. Inr True),
      priceRequest = (\<lambda>a. Inr (Some 1)),
      createSwapTransaction = (\<lambda>src dst. Inr (Some ''tx'')),
      devSoldRequest = (\<lambda>a. Inr True),
      fetchAndSaveSwapDetails = (\<lambda>tx. Inr True)\<rparr>"

definition env_three_days_later :: env where
  "env_three_days_later =
     \<lparr>now = 259203000,
      getRugCheckConfirmed = (\<lambda>a. Inr True),
      priceRequest = (\<lambda>a. Inr (Some 1)),
      createSwapTransaction = (\<lambda>src dst. Inr (Some ''tx'')),
      devSoldRequest = (\<lambda>a. Inr False),
      fetchAndSaveSwapDetails = (\<lambda>tx. Inr True)\<rparr>"


definition env_first_sell_rejects :: env where
  "env_first_sell_rejects =
     \<lparr>now = 3000,
      getRugCheckConfirmed = (\<lambda>a. Inr True),
      priceRequest = (\<lambda>a. Inr (Some 4)),
      createSwapTransaction =
        (\<lambda>src dst. if src = Some ''Addr1'' then Inl (Error ''sell failed'') else Inr (Some ''tx'')),
      devSoldRequest = (\<lambda>a. Inr False),
      fetchAndSaveSwapDetails = (\<lambda>tx. Inr True)\<rparr>"

definition details :: "string \<Rightarrow> txDetails option" where
  "details addr = Some \<lparr>mint = Some addr\<rparr>"

definition token1 :: TokenTrack where
  "token1 = \<lparr>tokenAddress = ''Addr1'', timestamp = 1000, price = 1, lastCheck = 1000, status = Active\<rparr>"

definition token2 :: TokenTrack where
  "token2 = \<lparr>tokenAddress = ''Addr2'', timestamp = 1000, price = 1, lastCheck = 1000, status = Active\<rparr>"

definition store1 :: state where
  "store1 = \<lparr>tokens = [token1], activeTransactions = 0, pending = [], swaps = [], logs = []\<rparr>"

definition address44 :: string where
  "address44 = ''BBc9zfiSMgqmmTqtFGE1xHzb1XcPzYSLQNLYTVoMpump''"

definition message_lines :: string where
  "message_lines = ''New gem:'' @ [CHR 0x0A] @ ''  BBc9zfiSMgqmmTqtFGE1xHzb1XcPzYSLQNLYTVoMpump '' @ [CHR 0x0A] @ ''buy now''"

definition message_inline :: string where
  "message_inline = ''CA: 11111111111111111111111111111111 (new)''"

section \<open>Frame lemmas: what each operation leaves alone\<close>

lemma logger_fields [simp]:
  "tokens (logger lv msg s) = tokens s"
  "activeTransactions (logger lv msg s) = activeTransactions s"
  "pending (logger lv msg s) = pending s"
  "swaps (logger lv msg s) = swaps s"
  "logs (logger lv msg s) = logs s @ [(lv, msg)]"
  by (simp_all add: logger_def)

lemma loggers_fields [simp]:
  "tokens (loggers ls s) = tokens s"
  "activeTransactions (loggers ls s) = activeTransactions s"
  "pending (loggers ls s) = pending s"
  "swaps (loggers ls s) = swaps s"
  "logs (loggers ls s) = logs s @ ls"
  by (simp_all add: loggers_def)

lemma swapCalled_fields [simp]:
  "tokens (swapCalled src dst s) = tokens s"
  "activeTransactions (swapCalled src dst s) = activeTransactions s"
  "pending (swapCalled src dst s) = pending s"
  "swaps (swapCalled src dst s) = swaps s @ [(src, dst)]"
  "logs (swapCalled src dst s) = logs s"
  by (simp_all add: swapCalled_def)

lemma addToken_fields [simp]:
  "activeTransactions (addToken env addr p s) = activeTransactions s"
  "pending (addToken env addr p s) = pending s"
  "swaps (addToken env addr p s) = swaps s"
  by (simp_all add: addToken_def Let_def)

lemma getCurrentPrice_fields [simp]:
  "tokens (snd (getCurrentPrice env addr s)) = tokens s"
  "activeTransactions (snd (getCurrentPrice env addr s)) = activeTransactions s"
  "pending (snd (getCurrentPrice env addr s)) = pending s"
  "swaps (snd (getCurrentPrice env addr s)) = swaps s"
  by (simp_all add: getCurrentPrice_def split: sum.splits option.splits)

lemma checkDevSold_fields [simp]:
  "tokens (snd (checkDevSold env addr s)) = tokens s"
  "activeTransactions (snd (checkDevSold env addr s)) = activeTransactions s"
  "pending (snd (checkDevSold env addr s)) = pending s"
  "swaps (snd (checkDevSold env addr s)) = swaps s"
  by (simp_all add: checkDevSold_def split: sum.splits)

lemma buyToken_fields [simp]:
  "tokens (buyToken env addr s) = tokens s"
  "activeTransactions (buyToken env addr s) = activeTransactions s"
  "pending (buyToken env addr s) = pending s"
  "swaps (buyToken env addr s) = swaps s @ [(None, addr)]"
  by (simp_all add: buyToken_def split: sum.splits)

lemma checkToken_counter [simp]:
  "activeTransactions (checkToken env token s) = activeTransactions s"
  "pending (checkToken env token s) = pending s"
  by (simp_all add: checkToken_def Let_def split_beta split: option.splits)

lemma checkTokens_counter [simp]:
  "activeTransactions (checkTokens env ts s) = activeTransactions s"
  "pending (checkTokens env ts s) = pending s"
  by (induction ts arbitrary: s) simp_all

lemma sellIncorrect_counter [simp]:
  "activeTransactions (sellIncorrect env cfg correct ts s) = activeTransactions s"
  "pending (sellIncorrect env cfg correct ts s) = pending s"
  by (induction ts arbitrary: s) (simp_all split: sum.splits)

lemma handleNewTokenFromWebsocket_counter [simp]:
  "activeTransactions (snd (handleNewTokenFromWebsocket env d s)) = activeTransactions s"
  "pending (snd (handleNewTokenFromWebsocket env d s)) = pending s"
  by (simp_all add: handleNewTokenFromWebsocket_def Let_def split_beta split: option.splits sum.splits)

lemma setCorrectToken_counter [simp]:
  "activeTransactions (setCorrectToken env cfg correct s) = activeTransactions s"
  "pending (setCorrectToken env cfg correct s) = pending s"
  by (simp_all add: setCorrectToken_def Let_def split_beta split: option.splits)

lemma processTransaction_counter [simp]:
  "activeTransactions (snd (processTransaction cfg env addr s)) = activeTransactions s"
  "pending (snd (processTransaction cfg env addr s)) = pending s"
  by (simp_all add: processTransaction_def Let_def split: option.splits sum.splits)

section \<open>The in-flight counter\<close>

lemma settle_resolves: "fst (settle cfg env i s) = Inr ()"
  by (simp add: settle_def Let_def split_beta)

lemma settle_counter:
  "i < length (pending s) \<Longrightarrow>
     activeTransactions (snd (settle cfg env i s)) = activeTransactions s - 1 \<and>
     pending (snd (settle cfg env i s)) = take i (pending s) @ drop (Suc i) (pending s)"
  by (simp add: settle_def Let_def split_beta split: sum.splits)

lemma settle_idle:
  "\<not> i < length (pending s) \<Longrightarrow> snd (settle cfg env i s) = s"
  by (simp add: settle_def)

lemma counter_inv_step:
  "counter_inv cfg s \<Longrightarrow> counter_inv cfg (step cfg e s)"
proof (cases e)
  case (TokenReceived addr)
  assume "counter_inv cfg s"
  then show ?thesis using TokenReceived
    by (auto simp: counter_inv_def onTokenReceived_def)
next
  case (Settled env i)
  assume inv: "counter_inv cfg s"
  show ?thesis
  proof (cases "i < length (pending s)")
    case True
    then show ?thesis using inv Settled settle_counter [OF True, of cfg env]
      by (auto simp: counter_inv_def)
  next
    case False
    then show ?thesis using inv Settled by (simp add: settle_idle)
  qed
qed (auto simp: counter_inv_def pollCycle_def cleanup_def)

lemma counter_inv_run:
  "counter_inv cfg s \<Longrightarrow> counter_inv cfg (run cfg es s)"
  by (induction es arbitrary: s) (simp_all add: counter_inv_step)

text \<open>
  C1. With a cap that is not negative, in every state reached from the initial one by any
  sequence of events the counter \<^verbatim>\<open>activeTransactions\<close> lies between 0 and the cap and
  equals the number of dispatches started and not settled. A token signal that arrives
  when the counter equals the cap leaves the counter and the pending dispatches as they
  are. The settling of a pending dispatch, whatever the external calls answer (so also when
  \<^verbatim>\<open>processTransaction\<close> rejects), resolves the handler, removes that dispatch and
  decrements the counter by exactly one.
\<close>

theorem activeTransactions_within_cap:
  assumes "0 \<le> concurrent_transactions cfg"
  shows "0 \<le> activeTransactions (run cfg es initial) \<and>
         activeTransactions (run cfg es initial) \<le> concurrent_transactions cfg \<and>
         activeTransactions (run cfg es initial) = int (length (pending (run cfg es initial))) \<and>
         (activeTransactions (run cfg es initial) = concurrent_transactions cfg \<longrightarrow>
            activeTransactions (onTokenReceived cfg addr (run cfg es initial))
              = activeTransactions (run cfg es initial) \<and>
            pending (onTokenReceived cfg addr (run cfg es initial)) = pending (run cfg es initial)) \<and>
         (i < length (pending (run cfg es initial)) \<longrightarrow>
            fst (settle cfg env i (run cfg es initial)) = Inr () \<and>
            activeTransactions (snd (settle cfg env i (run cfg es initial)))
              = activeTransactions (run cfg es initial) - 1 \<and>
            pending (snd (settle cfg env i (run cfg es initial)))
              = take i (pending (run cfg es initial)) @ drop (Suc i) (pending (run cfg es initial)))"
proof -
  have "counter_inv cfg initial"
    using assms by (simp add: counter_inv_def initial_def)
  then have inv: "counter_inv cfg (run cfg es initial)"
    by (rule counter_inv_run)
  have rejected: "activeTransactions (run cfg es initial) = concurrent_transactions cfg \<longrightarrow>
            activeTransactions (onTokenReceived cfg addr (run cfg es initial))
              = activeTransactions (run cfg es initial) \<and>
            pending (onTokenReceived cfg addr (run cfg es initial)) = pending (run cfg es initial)"
    by (simp add: onTokenReceived_def)
  show ?thesis
    using inv rejected settle_counter [of i "run cfg es initial" cfg env]
    by (simp add: counter_inv_def settle_resolves)
qed

theorem activeTransactions_within_cap_witness:
  "0 \<le> concurrent_transactions cfg_two \<and>
   activeTransactions (run cfg_two [TokenReceived ''A'', TokenReceived ''B''] initial) = 2 \<and>
   pending (onTokenReceived cfg_two ''C'' (run cfg_two [TokenReceived ''A'', TokenReceived ''B''] initial))
     = [''A'', ''B''] \<and>
   fst (processTransaction cfg_two env_swap_rejects ''A''
          (run cfg_two [TokenReceived ''A'', TokenReceived ''B''] initial)) = Inl (Error ''swap failed'') \<and>
   fst (settle cfg_two env_swap_rejects 0 (run cfg_two [TokenReceived ''A'', TokenReceived ''B''] initial))
     = Inr () \<and>
   activeTransactions (snd (settle cfg_two env_swap_rejects 0
      (run cfg_two [TokenReceived ''A'', TokenReceived ''B''] initial))) = 1"
proof -
  have r: "run cfg_two [TokenReceived ''A'', TokenReceived ''B''] initial
             = \<lparr>tokens = [], activeTransactions = 2, pending = [''A'', ''B''], swaps = [], logs = []\<rparr>"
    by (simp add: onTokenReceived_def initial_def cfg_two_def)
  have p: "fst (processTransaction cfg_two env_swap_rejects ''A''
          (run cfg_two [TokenReceived ''A'', TokenReceived ''B''] initial)) = Inl (Error ''swap failed'')"
    by (simp add: processTransaction_def Let_def cfg_two_def env_swap_rejects_def)
  have c: "0 \<le> concurrent_transactions cfg_two"
    by (simp add: cfg_two_def)
  show ?thesis
    using activeTransactions_within_cap [OF c, of "[TokenReceived ''A'', TokenReceived ''B'']" "''C''" 0 env_swap_rejects]
      p c
    unfolding r by (simp add: cfg_two_def)
qed

section \<open>The table: rows per address\<close>

lemma getToken_rowsFor:
  "getToken addr rows = (case rowsFor addr rows of [] \<Rightarrow> None | r # _ \<Rightarrow> Some r)"
  by (induction rows) (simp_all add: getToken_def rowsFor_def)

lemma rowsFor_distinct:
  "distinct (map tokenAddress rows) \<Longrightarrow> length (rowsFor addr rows) \<le> 1"
proof (induction rows)
  case Nil
  then show ?case by (simp add: rowsFor_def)
next
  case (Cons r rows)
  have "tokenAddress r = addr \<Longrightarrow> rowsFor addr rows = []"
    using Cons.prems by (auto simp: rowsFor_def filter_empty_conv image_iff)
  then show ?case using Cons by (auto simp: rowsFor_def)
qed

lemma getToken_Some_rowsFor:
  assumes "distinct (map tokenAddress rows)" and "getToken addr rows = Some r"
  shows "rowsFor addr rows = [r]"
proof -
  from assms(2) obtain rest where "rowsFor addr rows = r # rest"
    by (auto simp: getToken_rowsFor split: list.splits)
  moreover have "length (rowsFor addr rows) \<le> 1"
    using assms(1) by (rule rowsFor_distinct)
  ultimately show ?thesis by simp
qed

lemma distinct_addToken:
  "distinct (map tokenAddress rows) \<Longrightarrow> distinct (map tokenAddress (DatabaseService_addToken token rows))"
  by (auto simp: DatabaseService_addToken_def distinct_map_filter)

lemma addresses_updateTokenStatus [simp]:
  "map tokenAddress (updateTokenStatus addr st t rows) = map tokenAddress rows"
  by (induction rows) (simp_all add: updateTokenStatus_def)

lemma addresses_updateTokenPrice [simp]:
  "map tokenAddress (updateTokenPrice addr p t rows) = map tokenAddress rows"
  by (induction rows) (simp_all add: updateTokenPrice_def)

lemma distinct_cleanupOldTokens:
  "distinct (map tokenAddress rows) \<Longrightarrow> distinct (map tokenAddress (cleanupOldTokens h t rows))"
  by (simp add: cleanupOldTokens_def Let_def distinct_map_filter)

lemma addresses_checkToken [simp]:
  "map tokenAddress (tokens (checkToken env token s)) = map tokenAddress (tokens s)"
  by (simp add: checkToken_def Let_def split_beta split: option.splits)

lemma addresses_checkTokens [simp]:
  "map tokenAddress (tokens (checkTokens env ts s)) = map tokenAddress (tokens s)"
  by (induction ts arbitrary: s) simp_all

lemma addresses_sellIncorrect [simp]:
  "map tokenAddress (tokens (sellIncorrect env cfg correct ts s)) = map tokenAddress (tokens s)"
  by (induction ts arbitrary: s) (simp_all split: sum.splits)

lemma tokens_addToken [simp]:
  "tokens (addToken env addr p s) =
     DatabaseService_addToken \<lparr>tokenAddress = addr, timestamp = now env, price = p,
                                lastCheck = now env, status = Active\<rparr> (tokens s)"
  by (simp add: addToken_def)

lemma tokens_processTransaction [simp]:
  "tokens (snd (processTransaction cfg env addr s)) = tokens s"
  by (simp add: processTransaction_def Let_def split: option.splits sum.splits)

lemma tokens_settle [simp]: "tokens (snd (settle cfg env i s)) = tokens s"
  by (simp add: settle_def Let_def split_beta split: sum.splits)

lemma tokens_onTokenReceived [simp]: "tokens (onTokenReceived cfg addr s) = tokens s"
  by (simp add: onTokenReceived_def)

lemma distinct_handleNewTokenFromWebsocket:
  "distinct (map tokenAddress (tokens s)) \<Longrightarrow>
   distinct (map tokenAddress (tokens (snd (handleNewTokenFromWebsocket env d s))))"
  by (simp add: handleNewTokenFromWebsocket_def Let_def split_beta distinct_addToken
           split: option.splits sum.splits)

lemma distinct_setCorrectToken:
  "distinct (map tokenAddress (tokens s)) \<Longrightarrow>
   distinct (map tokenAddress (tokens (setCorrectToken env cfg correct s)))"
  by (simp add: setCorrectToken_def Let_def split_beta distinct_addToken split: option.splits)

lemma distinct_step:
  "distinct (map tokenAddress (tokens s)) \<Longrightarrow> distinct (map tokenAddress (tokens (step cfg e s)))"
  by (cases e)
     (simp_all add: distinct_handleNewTokenFromWebsocket distinct_setCorrectToken pollCycle_def
        cleanup_def distinct_cleanupOldTokens)

lemma distinct_run:
  "distinct (map tokenAddress (tokens s)) \<Longrightarrow> distinct (map tokenAddress (tokens (run cfg es s)))"
  by (induction es arbitrary: s) (simp_all add: distinct_step)

section \<open>Idempotent enrollment\<close>

lemma existing_no_write:
  "mintOf d = Some addr \<Longrightarrow> getToken addr (tokens s) = Some r \<Longrightarrow>
   tokens (snd (handleNewTokenFromWebsocket env d s)) = tokens s"
  by (simp add: handleNewTokenFromWebsocket_def)

lemma rowsFor_addToken_other:
  "tokenAddress token \<noteq> addr \<Longrightarrow> rowsFor addr (DatabaseService_addToken token rows) = rowsFor addr rows"
  by (induction rows) (auto simp: DatabaseService_addToken_def rowsFor_def)

lemma rowsFor_handleNewTokenFromWebsocket:
  assumes "getToken addr (tokens s) = Some r"
  shows "rowsFor addr (tokens (snd (handleNewTokenFromWebsocket env d s))) = rowsFor addr (tokens s)"
proof (cases "mintOf d = Some addr")
  case True
  then show ?thesis using assms by (simp add: existing_no_write)
next
  case False
  then show ?thesis
    by (auto simp: handleNewTokenFromWebsocket_def Let_def split_beta rowsFor_addToken_other
             split: option.splits sum.splits)
qed

lemma rowsFor_discoveries:
  "list_all isNewToken ds \<Longrightarrow> getToken addr (tokens s) = Some r \<Longrightarrow>
   rowsFor addr (tokens (run cfg ds s)) = rowsFor addr (tokens s)"
proof (induction ds arbitrary: s)
  case Nil
  then show ?case by simp
next
  case (Cons e ds)
  from Cons.prems(1) obtain env d where e: "e = NewToken env d"
    by (cases e) (simp_all add: isNewToken_def)
  have same: "rowsFor addr (tokens (step cfg e s)) = rowsFor addr (tokens s)"
    using Cons.prems(2) e by (simp add: rowsFor_handleNewTokenFromWebsocket)
  then have "getToken addr (tokens (step cfg e s)) = Some r"
    using Cons.prems(2) by (simp add: getToken_rowsFor)
  with Cons.IH [of "step cfg e s"] Cons.prems(1) same show ?case by simp
qed

text \<open>
  C2. Take any state reached from the initial one in which the table holds a row for an
  address, whatever its status. A discovery event for that address changes nothing in
  the table. After any sequence of discovery events the table holds exactly one row for
  that address, the row it held before, and no address occurs in two rows.
\<close>

theorem enrollment_idempotent:
  assumes "getToken addr (tokens (run cfg es initial)) = Some r"
    and "list_all isNewToken ds"
    and "mintOf d = Some addr"
  shows "tokens (snd (handleNewTokenFromWebsocket env d (run cfg es initial))) = tokens (run cfg es initial) \<and>
         rowsFor addr (tokens (run cfg ds (run cfg es initial))) = [r] \<and>
         distinct (map tokenAddress (tokens (run cfg ds (run cfg es initial))))"
proof -
  have d0: "distinct (map tokenAddress (tokens (run cfg es initial)))"
    by (rule distinct_run) (simp add: initial_def)
  then have "rowsFor addr (tokens (run cfg es initial)) = [r]"
    using assms(1) by (rule getToken_Some_rowsFor)
  then have "rowsFor addr (tokens (run cfg ds (run cfg es initial))) = [r]"
    using rowsFor_discoveries [OF assms(2) assms(1)] by simp
  moreover have "distinct (map tokenAddress (tokens (run cfg ds (run cfg es initial))))"
    using d0 by (rule distinct_run)
  ultimately show ?thesis
    using existing_no_write [OF assms(3) assms(1)] by simp
qed

lemma scenario1:
  "tokens (run cfg_two [NewToken (env_safe_priced 1) (details ''Addr1'')] initial)
     = [\<lparr>tokenAddress = ''Addr1'', timestamp = 1000, price = 1, lastCheck = 1000, status = Active\<rparr>]"
  by (simp add: handleNewTokenFromWebsocket_def mintOf_def details_def getToken_def initial_def
        env_safe_priced_def getCurrentPrice_def logger_def DatabaseService_addToken_def)

theorem enrollment_idempotent_witness:
  "getToken ''Addr1'' (tokens (run cfg_two [NewToken (env_safe_priced 1) (details ''Addr1'')] initial))
     = Some \<lparr>tokenAddress = ''Addr1'', timestamp = 1000, price = 1, lastCheck = 1000, status = Active\<rparr> \<and>
   list_all isNewToken [NewToken (env_safe_priced 2) (details ''Addr1''), NewToken (env_safe_priced 5) (details ''Addr2'')] \<and>
   mintOf (details ''Addr1'') = Some ''Addr1'' \<and>
   rowsFor ''Addr1'' (tokens (run cfg_two [NewToken (env_safe_priced 2) (details ''Addr1''), NewToken (env_safe_priced 5) (details ''Addr2'')]
       (run cfg_two [NewToken (env_safe_priced 1) (details ''Addr1'')] initial)))
     = [\<lparr>tokenAddress = ''Addr1'', timestamp = 1000, price = 1, lastCheck = 1000, status = Active\<rparr>]"
proof -
  have g: "getToken ''Addr1'' (tokens (run cfg_two [NewToken (env_safe_priced 1) (details ''Addr1'')] initial))
     = Some \<lparr>tokenAddress = ''Addr1'', timestamp = 1000, price = 1, lastCheck = 1000, status = Active\<rparr>"
    unfolding scenario1 by (simp add: getToken_def)
  have l: "list_all isNewToken [NewToken (env_safe_priced 2) (details ''Addr1''), NewToken (env_safe_priced 5) (details ''Addr2'')]"
    by (simp add: isNewToken_def)
  have m: "mintOf (details ''Addr1'') = Some ''Addr1''"
    by (simp add: mintOf_def details_def)
  show ?thesis
    using enrollment_idempotent [OF g l m] g l m by simp
qed

section \<open>The safety gate\<close>

text \<open>
  C6. For every candidate address whose rug check rejects (throws) or answers false,
  \<^verbatim>\<open>handleNewTokenFromWebsocket\<close> resolves (no exception leaves it), leaves the table
  as it was, so that no row is created for the address, and calls no swap.
\<close>

theorem rug_check_fails_closed:
  assumes "mintOf d = Some m"
    and "(\<exists>e. getRugCheckConfirmed env m = Inl e) \<or> getRugCheckConfirmed env m = Inr False"
  shows "fst (handleNewTokenFromWebsocket env d s) = Inr () \<and>
         tokens (snd (handleNewTokenFromWebsocket env d s)) = tokens s \<and>
         getToken m (tokens (snd (handleNewTokenFromWebsocket env d s))) = getToken m (tokens s) \<and>
         swaps (snd (handleNewTokenFromWebsocket env d s)) = swaps s"
  using assms
  by (auto simp: handleNewTokenFromWebsocket_def split: option.splits)

theorem rug_check_fails_closed_witness:
  "mintOf (details ''Addr5'') = Some ''Addr5'' \<and>
   getRugCheckConfirmed env_rug_check_throws ''Addr5'' = Inl (Error ''rug check request failed'') \<and>
   fst (handleNewTokenFromWebsocket env_rug_check_throws (details ''Addr5'') initial) = Inr () \<and>
   tokens (snd (handleNewTokenFromWebsocket env_rug_check_throws (details ''Addr5'') initial)) = [] \<and>
   getToken ''Addr5'' (tokens (snd (handleNewTokenFromWebsocket env_rug_check_throws (details ''Addr5'') initial))) = None"
proof -
  have m: "mintOf (details ''Addr5'') = Some ''Addr5''"
    by (simp add: mintOf_def details_def)
  have r: "getRugCheckConfirmed env_rug_check_throws ''Addr5'' = Inl (Error ''rug check request failed'')"
    by (simp add: env_rug_check_throws_def)
  then have h: "(\<exists>e. getRugCheckConfirmed env_rug_check_throws ''Addr5'' = Inl e) \<or>
                getRugCheckConfirmed env_rug_check_throws ''Addr5'' = Inr False"
    by simp
  show ?thesis
    using rug_check_fails_closed [OF m h, of initial] m r
    by (simp add: initial_def getToken_def)
qed

section \<open>A price of zero\<close>

lemma prices_updateTokenStatus [simp]:
  "map price (updateTokenStatus addr st t rows) = map price rows"
  by (induction rows) (simp_all add: updateTokenStatus_def)

lemma checkToken_no_price:
  assumes "fst (getCurrentPrice env (tokenAddress token) s) = None"
  shows "swaps (checkToken env token s) = swaps s"
    and "tokens (checkToken env token s) =
           (if fst (checkDevSold env (tokenAddress token) s)
            then updateTokenStatus (tokenAddress token) Inactive (now env) (tokens s) else tokens s)"
  using assms
  by (simp_all add: checkToken_def Let_def split_beta checkDevSold_def split: sum.splits)

lemma getCurrentPrice_None:
  assumes "priceRequest env addr = Inr (Some 0) \<or> priceRequest env addr = Inr None \<or>
           (\<exists>e. priceRequest env addr = Inl e)"
  shows "fst (getCurrentPrice env addr s) = None"
  using assms by (auto simp: getCurrentPrice_def)

lemma handleNewTokenFromWebsocket_no_price:
  assumes "\<And>s'. fst (getCurrentPrice env addr s') = None" and "mintOf d = Some addr"
  shows "fst (handleNewTokenFromWebsocket env d s) = Inr ()"
    and "tokens (snd (handleNewTokenFromWebsocket env d s)) = tokens s"
  using assms
  by (simp_all add: handleNewTokenFromWebsocket_def Let_def split_beta split: option.splits sum.splits)

text \<open>
  C10. A price request that answers 0 gives the same result of \<^verbatim>\<open>getCurrentPrice\<close> as
  one that answers no price or is rejected: \<^verbatim>\<open>null\<close>. In each of these cases a
  candidate with that address is not enrolled (the table is unchanged), and a check of an
  active token with that address calls no swap and changes no stored price: the table
  changes only when the dev-sold test marks the token inactive.
\<close>

theorem zero_price_is_no_price:
  assumes "priceRequest env addr = Inr (Some 0) \<or> priceRequest env addr = Inr None \<or>
           (\<exists>e. priceRequest env addr = Inl e)"
  shows "fst (getCurrentPrice env addr s) = None \<and>
         (mintOf d = Some addr \<longrightarrow>
            fst (handleNewTokenFromWebsocket env d s) = Inr () \<and>
            tokens (snd (handleNewTokenFromWebsocket env d s)) = tokens s) \<and>
         (tokenAddress token = addr \<longrightarrow>
            swaps (checkToken env token s) = swaps s \<and>
            map price (tokens (checkToken env token s)) = map price (tokens s) \<and>
            tokens (checkToken env token s) =
              (if fst (checkDevSold env addr s)
               then updateTokenStatus addr Inactive (now env) (tokens s) else tokens s))"
proof -
  have none: "\<And>s'. fst (getCurrentPrice env addr s') = None"
    using assms by (rule getCurrentPrice_None)
  have poll: "tokenAddress token = addr \<longrightarrow>
            swaps (checkToken env token s) = swaps s \<and>
            map price (tokens (checkToken env token s)) = map price (tokens s) \<and>
            tokens (checkToken env token s) =
              (if fst (checkDevSold env addr s)
               then updateTokenStatus addr Inactive (now env) (tokens s) else tokens s)"
    using checkToken_no_price [of env token s] none by auto
  show ?thesis
    using none handleNewTokenFromWebsocket_no_price [of env addr d s] poll by simp
qed

theorem zero_price_is_no_price_witness:
  "priceRequest env_price_zero ''Addr1'' = Inr (Some 0) \<and>
   fst (getCurrentPrice env_price_zero ''Addr1'' initial) = None \<and>
   mintOf (details ''Addr1'') = Some ''Addr1'' \<and>
   tokens (snd (handleNewTokenFromWebsocket env_price_zero (details ''Addr1'') initial)) = [] \<and>
   tokenAddress token1 = ''Addr1'' \<and>
   swaps (checkToken env_price_zero token1 store1) = [] \<and>
   tokens (checkToken env_price_zero token1 store1) = [token1]"
proof -
  have p0: "priceRequest env_price_zero ''Addr1'' = Inr (Some 0)"
    by (simp add: env_price_zero_def)
  then have p: "priceRequest env_price_zero ''Addr1'' = Inr (Some 0) \<or>
                priceRequest env_price_zero ''Addr1'' = Inr None \<or>
                (\<exists>e. priceRequest env_price_zero ''Addr1'' = Inl e)"
    by simp
  have m: "mintOf (details ''Addr1'') = Some ''Addr1''"
    by (simp add: mintOf_def details_def)
  have a: "tokenAddress token1 = ''Addr1''"
    by (simp add: token1_def)
  have d: "fst (checkDevSold env_price_zero ''Addr1'' store1) = False"
    by (simp add: checkDevSold_def env_price_zero_def)
  show ?thesis
    using zero_price_is_no_price [OF p, of initial "details ''Addr1''" token1]
          zero_price_is_no_price [OF p, of store1 "details ''Addr1''" token1] p0 m a d
    by (simp add: initial_def store1_def)
qed

section \<open>The status of a token\<close>

lemma status_of_Nil [simp]: "status_of [] a = None"
  by (simp add: status_of_def getToken_def)

lemma status_of_Cons [simp]:
  "status_of (r # rows) a = (if tokenAddress r = a then Some (status r) else status_of rows a)"
  by (simp add: status_of_def getToken_def)

lemma status_of_updateTokenPrice [simp]:
  "status_of (updateTokenPrice addr p t rows) a = status_of rows a"
  unfolding updateTokenPrice_def by (induction rows) simp_all















lemmas eval_defs =
  handleNewTokenFromWebsocket_def mintOf_def details_def getToken_def initial_def
  env_safe_priced_def env_dev_sold_def env_three_days_later_def getCurrentPrice_def logger_def
  DatabaseService_addToken_def pollCycle_def getActiveTokens_def checkToken_def
  checkDevSold_def updateTokenPrice_def updateTokenStatus_def priceIncreaseOver200_def
  buyToken_def swapCalled_def cleanup_def cleanupOldTokens_def TOKEN_MAX_AGE_HOURS_def Let_def
  cfg_two_def setCorrectToken_def


section \<open>The poll cycle\<close>

lemma fst_getCurrentPrice [simp]: "fst (getCurrentPrice env addr s) = observedPrice env addr"
  by (simp add: getCurrentPrice_def observedPrice_def split: sum.splits option.splits)

lemma fst_checkDevSold [simp]: "fst (checkDevSold env addr s) = devSold env addr"
  by (simp add: checkDevSold_def devSold_def split: sum.splits)

lemma tokenAddress_polled [simp]: "tokenAddress (polled env r) = tokenAddress r"
  by (simp add: polled_def Let_def split: option.splits)

lemma getToken_Nil [simp]: "getToken a [] = None"
  by (simp add: getToken_def)

lemma getToken_Cons [simp]:
  "getToken a (r # rows) = (if tokenAddress r = a then Some r else getToken a rows)"
  by (simp add: getToken_def)

lemma getToken_map_at:
  assumes "\<And>r. tokenAddress (f r) = tokenAddress r"
  shows "getToken a (map (\<lambda>r. if tokenAddress r = addr then f r else r) rows) =
           (if a = addr then map_option f (getToken a rows) else getToken a rows)"
  using assms by (induction rows) auto

lemma tokens_checkToken:
  "tokens (checkToken env token s) =
     map (\<lambda>r. if tokenAddress r = tokenAddress token then polled env r else r) (tokens s)"
  by (cases "observedPrice env (tokenAddress token)"; cases "devSold env (tokenAddress token)")
     (simp_all add: checkToken_def Let_def split_beta updateTokenPrice_def updateTokenStatus_def
        polled_def cong: if_cong)

lemma getToken_checkToken:
  "getToken a (tokens (checkToken env token s)) =
     (if a = tokenAddress token then map_option (polled env) (getToken a (tokens s))
      else getToken a (tokens s))"
  by (simp add: tokens_checkToken getToken_map_at)

lemma swaps_checkToken:
  "swaps (checkToken env token s) = swaps s @ buysFor env token"
  by (simp add: checkToken_def Let_def split_beta buysFor_def split: option.splits)

lemma swaps_checkTokens:
  "swaps (checkTokens env ts s) = swaps s @ concat (map (buysFor env) ts)"
  by (induction ts arbitrary: s) (simp_all add: swaps_checkToken)

lemma getToken_checkTokens:
  "distinct (map tokenAddress ts) \<Longrightarrow>
   getToken a (tokens (checkTokens env ts s)) =
     (if a \<in> set (map tokenAddress ts) then map_option (polled env) (getToken a (tokens s))
      else getToken a (tokens s))"
proof (induction ts arbitrary: s)
  case Nil
  then show ?case by simp
next
  case (Cons token ts)
  then show ?case by (auto simp: getToken_checkToken)
qed

lemma getToken_getActiveTokens:
  "distinct (map tokenAddress rows) \<Longrightarrow>
   getToken a (getActiveTokens rows) =
     (case getToken a rows of
        None \<Rightarrow> None
      | Some r \<Rightarrow> if status r = Active then Some r else None)"
proof (induction rows)
  case Nil
  then show ?case by (simp add: getActiveTokens_def)
next
  case (Cons r rows)
  have absent: "tokenAddress r = a \<Longrightarrow> getToken a (getActiveTokens rows) = None"
    using Cons.prems by (auto simp: getToken_def getActiveTokens_def find_None_iff image_iff)
  show ?case using Cons absent by (auto simp: getActiveTokens_def)
qed

lemma getToken_member:
  "a \<in> set (map tokenAddress rows) \<longleftrightarrow> getToken a rows \<noteq> None"
  by (induction rows) auto

lemma distinct_getActiveTokens:
  "distinct (map tokenAddress rows) \<Longrightarrow> distinct (map tokenAddress (getActiveTokens rows))"
  by (simp add: getActiveTokens_def distinct_map_filter)

lemma getToken_pollCycle:
  assumes "distinct (map tokenAddress (tokens s))"
  shows "getToken a (tokens (pollCycle env s)) =
           (case getToken a (tokens s) of
              None \<Rightarrow> None
            | Some r \<Rightarrow> if status r = Active then Some (polled env r) else Some r)"
  using assms
  by (simp add: pollCycle_def getToken_checkTokens distinct_getActiveTokens getToken_member
        getToken_getActiveTokens del: set_map split: option.splits)

lemma buys_of_address:
  "distinct (map tokenAddress ts) \<Longrightarrow>
   filter (\<lambda>c. c = (None, a)) (concat (map (buysFor env) ts)) =
     (case getToken a ts of None \<Rightarrow> [] | Some t \<Rightarrow> filter (\<lambda>c. c = (None, a)) (buysFor env t))"
proof (induction ts)
  case Nil
  then show ?case by simp
next
  case (Cons t ts)
  have other: "tokenAddress t \<noteq> a \<Longrightarrow> filter (\<lambda>c. c = (None, a)) (buysFor env t) = []"
    by (simp add: buysFor_def split: option.splits)
  have last: "tokenAddress t = a \<Longrightarrow> getToken a ts = None"
    using Cons.prems getToken_member [of a ts] by auto
  show ?case using Cons other last by auto
qed

lemma buyCount_pollCycle:
  assumes "distinct (map tokenAddress (tokens s))"
  shows "buyCount a (pollCycle env s) =
           buyCount a s +
           (case getToken a (tokens s) of
              None \<Rightarrow> 0
            | Some r \<Rightarrow> if status r = Active then length (filter (\<lambda>c. c = (None, a)) (buysFor env r)) else 0)"
  using assms
  by (simp add: buyCount_def pollCycle_def swaps_checkTokens buys_of_address distinct_getActiveTokens
        getToken_getActiveTokens split: option.splits)

lemma buysFor_own:
  "getToken a rows = Some r \<Longrightarrow>
   filter (\<lambda>c. c = (None, a)) (buysFor env r) =
     (case observedPrice env a of
        None \<Rightarrow> []
      | Some cp \<Rightarrow> if priceIncreaseOver200 cp (price r) then [(None, a)] else [])"
proof -
  assume "getToken a rows = Some r"
  then have "tokenAddress r = a"
    by (auto simp: getToken_def find_Some_iff)
  then show ?thesis by (simp add: buysFor_def split: option.splits)
qed

lemma distinct_pollCycle:
  "distinct (map tokenAddress (tokens s)) \<Longrightarrow> distinct (map tokenAddress (tokens (pollCycle env s)))"
  by (simp add: pollCycle_def)

lemma distinct_reachable: "distinct (map tokenAddress (tokens (run cfg es initial)))"
  by (rule distinct_run) (simp add: initial_def)

lemma getToken_address: "getToken a rows = Some r \<Longrightarrow> tokenAddress r = a"
  by (auto simp: getToken_def find_Some_iff)

lemma priceIncreaseOver200_positive:
  "0 < tokenPrice \<Longrightarrow> priceIncreaseOver200 currentPrice tokenPrice \<longleftrightarrow> 3 * tokenPrice < currentPrice"
  by (simp add: priceIncreaseOver200_def field_simps)

lemma getToken_addToken:
  "getToken a (DatabaseService_addToken token rows) =
     (if a = tokenAddress token then Some token else getToken a rows)"
  unfolding DatabaseService_addToken_def by (induction rows) auto

text \<open>
  C4, as stated, fails: a token enrolled at price 1 has the stored price 2 after a poll
  cycle that observes 2, and a following poll that observes 3.5, which is 250 percent
  above the enrollment price, buys nothing, because the comparison is with the stored 2.
\<close>

theorem reference_price_counterexample:
  "map price (tokens (run cfg_two [NewToken (env_safe_priced 1) (details ''Addr1'')] initial)) = [1] \<and>
   map price (tokens (run cfg_two [NewToken (env_safe_priced 1) (details ''Addr1''),
                                   Poll (env_safe_priced 2)] initial)) = [2] \<and>
   swaps (run cfg_two [NewToken (env_safe_priced 1) (details ''Addr1''),
                       Poll (env_safe_priced 2), Poll (env_safe_priced 3.5)] initial) = []"
  by (simp add: eval_defs)

text \<open>
  C4, amended. The stored price is written at enrollment (a candidate without a row that
  passes the rug check is stored with the fetched price) and is overwritten by every poll
  cycle that fetches a price for the active token: afterwards the row holds the fetched
  price and the time of the poll as last check, with its address and discovery time kept,
  and status inactive exactly when the dev-sold test holds. The cycle dispatches one buy
  for the token exactly when the fetched price is more than 200 percent above the price
  the row held when the cycle started, and none otherwise.
\<close>

theorem stored_price_follows_polls:
  "(getToken a (tokens (run cfg es initial)) = None \<and> mintOf d = Some a \<and>
    getRugCheckConfirmed env a = Inr True \<and>
    fst (getCurrentPrice env a (run cfg es initial)) = Some p \<longrightarrow>
      getToken a (tokens (snd (handleNewTokenFromWebsocket env d (run cfg es initial)))) =
        Some \<lparr>tokenAddress = a, timestamp = now env, price = p, lastCheck = now env, status = Active\<rparr>) \<and>
   (getToken a (tokens (run cfg es initial)) = Some r \<and> status r = Active \<and>
    fst (getCurrentPrice env a (run cfg es initial)) = Some cp \<longrightarrow>
      getToken a (tokens (pollCycle env (run cfg es initial))) =
        Some (r\<lparr>price := cp, lastCheck := now env,
                status := (if fst (checkDevSold env a (run cfg es initial)) then Inactive else Active)\<rparr>) \<and>
      buyCount a (pollCycle env (run cfg es initial)) =
        buyCount a (run cfg es initial) + (if priceIncreaseOver200 cp (price r) then 1 else 0))"
proof -
  let ?s = "run cfg es initial"
  have d: "distinct (map tokenAddress (tokens ?s))"
    by (rule distinct_reachable)
  have enroll: "getToken a (tokens ?s) = None \<and> mintOf d = Some a \<and>
    getRugCheckConfirmed env a = Inr True \<and> fst (getCurrentPrice env a ?s) = Some p \<longrightarrow>
      getToken a (tokens (snd (handleNewTokenFromWebsocket env d ?s))) =
        Some \<lparr>tokenAddress = a, timestamp = now env, price = p, lastCheck = now env, status = Active\<rparr>"
    by (auto simp: handleNewTokenFromWebsocket_def Let_def split_beta getToken_addToken)
  have poll: "getToken a (tokens ?s) = Some r \<and> status r = Active \<and>
    fst (getCurrentPrice env a ?s) = Some cp \<longrightarrow>
      getToken a (tokens (pollCycle env ?s)) =
        Some (r\<lparr>price := cp, lastCheck := now env,
                status := (if fst (checkDevSold env a ?s) then Inactive else Active)\<rparr>) \<and>
      buyCount a (pollCycle env ?s) =
        buyCount a ?s + (if priceIncreaseOver200 cp (price r) then 1 else 0)"
  proof (intro impI, elim conjE)
    assume r: "getToken a (tokens ?s) = Some r" and act: "status r = Active"
      and obs: "fst (getCurrentPrice env a ?s) = Some cp"
    have addr: "tokenAddress r = a"
      using r by (rule getToken_address)
    have row: "getToken a (tokens (pollCycle env ?s)) = Some (polled env r)"
      using r act by (simp add: getToken_pollCycle [OF d])
    have buys: "buyCount a (pollCycle env ?s) =
        buyCount a ?s + (if priceIncreaseOver200 cp (price r) then 1 else 0)"
      using r act obs by (simp add: buyCount_pollCycle [OF d] buysFor_own [OF r])
    show "getToken a (tokens (pollCycle env ?s)) =
        Some (r\<lparr>price := cp, lastCheck := now env,
                status := (if fst (checkDevSold env a ?s) then Inactive else Active)\<rparr>) \<and>
      buyCount a (pollCycle env ?s) =
        buyCount a ?s + (if priceIncreaseOver200 cp (price r) then 1 else 0)"
      using row buys obs act addr by (simp add: polled_def)
  qed
  show ?thesis using enroll poll by blast
qed

lemma observed_safe_priced: "p \<noteq> 0 \<Longrightarrow> observedPrice (env_safe_priced p) a = Some p"
  by (simp add: observedPrice_def env_safe_priced_def)

theorem stored_price_follows_polls_witness:
  "getToken ''Addr1'' (tokens (run cfg_two [] initial)) = None \<and>
   mintOf (details ''Addr1'') = Some ''Addr1'' \<and>
   getRugCheckConfirmed (env_safe_priced 1) ''Addr1'' = Inr True \<and>
   fst (getCurrentPrice (env_safe_priced 1) ''Addr1'' (run cfg_two [] initial)) = Some 1 \<and>
   getToken ''Addr1'' (tokens (snd (handleNewTokenFromWebsocket (env_safe_priced 1) (details ''Addr1'')
       (run cfg_two [] initial)))) = Some token1 \<and>
   getToken ''Addr1'' (tokens (run cfg_two [NewToken (env_safe_priced 1) (details ''Addr1'')] initial))
     = Some token1 \<and>
   status token1 = Active \<and>
   fst (getCurrentPrice (env_safe_priced 2) ''Addr1''
          (run cfg_two [NewToken (env_safe_priced 1) (details ''Addr1'')] initial)) = Some 2 \<and>
   getToken ''Addr1'' (tokens (pollCycle (env_safe_priced 2)
       (run cfg_two [NewToken (env_safe_priced 1) (details ''Addr1'')] initial)))
     = Some (token1\<lparr>price := 2\<rparr>) \<and>
   buyCount ''Addr1'' (pollCycle (env_safe_priced 2)
       (run cfg_two [NewToken (env_safe_priced 1) (details ''Addr1'')] initial)) = 0"
proof -
  have a: "getToken ''Addr1'' (tokens (run cfg_two [] initial)) = None"
    by (simp add: initial_def)
  have m: "mintOf (details ''Addr1'') = Some ''Addr1''"
    by (simp add: mintOf_def details_def)
  have g: "getRugCheckConfirmed (env_safe_priced 1) ''Addr1'' = Inr True"
    by (simp add: env_safe_priced_def)
  have p1: "fst (getCurrentPrice (env_safe_priced 1) ''Addr1'' (run cfg_two [] initial)) = Some 1"
    by (simp add: observed_safe_priced)
  have r: "getToken ''Addr1'' (tokens (run cfg_two [NewToken (env_safe_priced 1) (details ''Addr1'')] initial))
     = Some token1"
    unfolding scenario1 by (simp add: token1_def)
  have st: "status token1 = Active"
    by (simp add: token1_def)
  have p2: "fst (getCurrentPrice (env_safe_priced 2) ''Addr1''
          (run cfg_two [NewToken (env_safe_priced 1) (details ''Addr1'')] initial)) = Some 2"
    by (simp add: observed_safe_priced)
  have b0: "buyCount ''Addr1'' (run cfg_two [NewToken (env_safe_priced 1) (details ''Addr1'')] initial) = 0"
    by (simp add: buyCount_def eval_defs)
  have nd: "\<not> fst (checkDevSold (env_safe_priced 2) ''Addr1''
          (run cfg_two [NewToken (env_safe_priced 1) (details ''Addr1'')] initial))"
    by (simp add: devSold_def env_safe_priced_def)
  have tr: "\<not> priceIncreaseOver200 2 (price token1)"
    by (simp add: priceIncreaseOver200_def token1_def)
  have e: "\<lparr>tokenAddress = ''Addr1'', timestamp = now (env_safe_priced 1), price = 1,
            lastCheck = now (env_safe_priced 1), status = Active\<rparr> = token1"
    by (simp add: token1_def env_safe_priced_def)
  have l: "token1\<lparr>price := 2, lastCheck := now (env_safe_priced 2), status := Active\<rparr> = token1\<lparr>price := 2\<rparr>"
    by (simp add: token1_def env_safe_priced_def)
  from stored_price_follows_polls [of "''Addr1''" cfg_two "[]" "details ''Addr1''" "env_safe_priced 1" 1
         token1 0]
  have first: "getToken ''Addr1'' (tokens (snd (handleNewTokenFromWebsocket (env_safe_priced 1) (details ''Addr1'')
       (run cfg_two [] initial)))) = Some token1"
    using a m g p1 e by simp
  from stored_price_follows_polls [of "''Addr1''" cfg_two
         "[NewToken (env_safe_priced 1) (details ''Addr1'')]" "details ''Addr1''" "env_safe_priced 2" 2
         token1 2]
  have second: "getToken ''Addr1'' (tokens (pollCycle (env_safe_priced 2)
       (run cfg_two [NewToken (env_safe_priced 1) (details ''Addr1'')] initial)))
     = Some (token1\<lparr>price := 2\<rparr>) \<and>
   buyCount ''Addr1'' (pollCycle (env_safe_priced 2)
       (run cfg_two [NewToken (env_safe_priced 1) (details ''Addr1'')] initial)) = 0"
    using r st p2 b0 nd tr l by simp
  show ?thesis
    using a m g p1 first r st p2 second by blast
qed

text \<open>
  C5, as stated, fails: with reference price 1, a first poll at 3.5 and a second at 11,
  the price of the second poll is still above the original reference, and a second buy is
  dispatched. It also fails at the prices 1, 3.5 and 3.6 when the cycles overlap: a second
  cycle that read the active rows before the first one stored 3.5 compares 3.6 with the
  price 1 it read and dispatches a second buy.
\<close>

theorem one_buy_per_crossing_counterexample:
  "buyCount ''Addr1'' (run cfg_two [NewToken (env_safe_priced 1) (details ''Addr1''),
                                    Poll (env_safe_priced 3.5)] initial) = 1 \<and>
   (1::real) < 11 \<and>
   buyCount ''Addr1'' (run cfg_two [NewToken (env_safe_priced 1) (details ''Addr1''),
                                    Poll (env_safe_priced 3.5), Poll (env_safe_priced 11)] initial) = 2 \<and>
   buyCount ''Addr1''
     (checkTokens (env_safe_priced 3.6)
        (getActiveTokens (tokens (run cfg_two [NewToken (env_safe_priced 1) (details ''Addr1'')] initial)))
        (pollCycle (env_safe_priced 3.5)
           (run cfg_two [NewToken (env_safe_priced 1) (details ''Addr1'')] initial))) = 2"
  by (simp add: buyCount_def eval_defs)

text \<open>
  C5, amended. A poll cycle that fetches, for an active token, a price more than 200
  percent above the stored price dispatches exactly one buy for it and stores the fetched
  price as the new baseline. Without overlap, when the next poll cycle reads the active
  rows after the first has finished, it dispatches one more buy exactly when the token is
  still active and its fetched price is again more than 200 percent above that new
  baseline; with a positive baseline and a price of at most three times the baseline
  (reference 1, first poll 3.5, second poll 3.6) it dispatches none. With overlap, when the
  next cycle has read the active rows before the first one wrote and checks them after
  it, it dispatches one more buy exactly when its fetched price is more than 200 percent
  above the price it read, the baseline of the first cycle. In every schedule a check of a
  token dispatches one buy exactly when the fetched price is more than 200 percent above
  the price of the row as its cycle read it, and none otherwise.
\<close>

theorem one_buy_per_moving_baseline:
  assumes "getToken a (tokens (run cfg es initial)) = Some r"
    and "status r = Active"
    and "fst (getCurrentPrice env1 a (run cfg es initial)) = Some p1"
    and "priceIncreaseOver200 p1 (price r)"
  shows "buyCount a (pollCycle env1 (run cfg es initial)) = buyCount a (run cfg es initial) + 1 \<and>
         buyCount a (pollCycle env2 (pollCycle env1 (run cfg es initial))) =
           buyCount a (run cfg es initial) + 1 +
           (case fst (getCurrentPrice env2 a (pollCycle env1 (run cfg es initial))) of
              None \<Rightarrow> 0
            | Some p2 \<Rightarrow>
                if \<not> fst (checkDevSold env1 a (run cfg es initial)) \<and> priceIncreaseOver200 p2 p1
                then 1 else 0) \<and>
         (0 < p1 \<and> fst (getCurrentPrice env2 a (pollCycle env1 (run cfg es initial))) = Some p2 \<and>
          p2 \<le> 3 * p1 \<longrightarrow>
            buyCount a (pollCycle env2 (pollCycle env1 (run cfg es initial))) =
              buyCount a (run cfg es initial) + 1) \<and>
         buyCount a (checkTokens env2 (getActiveTokens (tokens (run cfg es initial)))
                       (pollCycle env1 (run cfg es initial))) =
           buyCount a (run cfg es initial) + 1 +
           (case fst (getCurrentPrice env2 a (run cfg es initial)) of
              None \<Rightarrow> 0
            | Some p2 \<Rightarrow> if priceIncreaseOver200 p2 (price r) then 1 else 0) \<and>
         swaps (checkToken env token s) =
           swaps s @
           (case fst (getCurrentPrice env (tokenAddress token) s) of
              None \<Rightarrow> []
            | Some cp \<Rightarrow>
                if priceIncreaseOver200 cp (price token) then [(None, tokenAddress token)] else [])"
proof -
  let ?s = "run cfg es initial"
  have d: "distinct (map tokenAddress (tokens ?s))"
    by (rule distinct_reachable)
  have d1: "distinct (map tokenAddress (tokens (pollCycle env1 ?s)))"
    using d by (rule distinct_pollCycle)
  have addr: "tokenAddress r = a"
    using assms(1) by (rule getToken_address)
  have obs: "observedPrice env1 a = Some p1"
    using assms(3) by simp
  have first: "buyCount a (pollCycle env1 ?s) = buyCount a ?s + 1"
    using assms(1,2,4) obs by (simp add: buyCount_pollCycle [OF d] buysFor_own [OF assms(1)])
  have row: "getToken a (tokens (pollCycle env1 ?s)) = Some (polled env1 r)"
    using assms(1,2) by (simp add: getToken_pollCycle [OF d])
  have price1: "price (polled env1 r) = p1"
    using obs addr by (simp add: polled_def Let_def)
  have status1: "status (polled env1 r) = (if devSold env1 a then Inactive else Active)"
    using obs addr assms(2) by (simp add: polled_def Let_def)
  have second: "buyCount a (pollCycle env2 (pollCycle env1 ?s)) =
           buyCount a ?s + 1 +
           (case fst (getCurrentPrice env2 a (pollCycle env1 ?s)) of
              None \<Rightarrow> 0
            | Some p2 \<Rightarrow>
                if \<not> fst (checkDevSold env1 a ?s) \<and> priceIncreaseOver200 p2 p1 then 1 else 0)"
    using first row price1 status1
    by (simp add: buyCount_pollCycle [OF d1] buysFor_own [OF row] split: option.splits)
  have quiet: "0 < p1 \<and> fst (getCurrentPrice env2 a (pollCycle env1 ?s)) = Some p2 \<and>
          p2 \<le> 3 * p1 \<longrightarrow>
            buyCount a (pollCycle env2 (pollCycle env1 ?s)) = buyCount a ?s + 1"
    using second by (auto simp: priceIncreaseOver200_positive)
  have earlier: "getToken a (getActiveTokens (tokens ?s)) = Some r"
    using assms(1,2) by (simp add: getToken_getActiveTokens [OF d])
  have overlap: "buyCount a (checkTokens env2 (getActiveTokens (tokens ?s)) (pollCycle env1 ?s)) =
           buyCount a ?s + 1 +
           (case fst (getCurrentPrice env2 a ?s) of
              None \<Rightarrow> 0
            | Some p2 \<Rightarrow> if priceIncreaseOver200 p2 (price r) then 1 else 0)"
    using first earlier
    by (simp add: buyCount_def swaps_checkTokens buys_of_address distinct_getActiveTokens [OF d]
          buysFor_own [OF assms(1)] split: option.splits)
  have check: "swaps (checkToken env token s) =
           swaps s @
           (case fst (getCurrentPrice env (tokenAddress token) s) of
              None \<Rightarrow> []
            | Some cp \<Rightarrow>
                if priceIncreaseOver200 cp (price token) then [(None, tokenAddress token)] else [])"
    by (simp add: swaps_checkToken buysFor_def)
  show ?thesis using first second quiet overlap check by blast
qed

theorem one_buy_per_moving_baseline_witness:
  "getToken ''Addr1'' (tokens (run cfg_two [NewToken (env_safe_priced 1) (details ''Addr1'')] initial))
     = Some token1 \<and>
   status token1 = Active \<and>
   fst (getCurrentPrice (env_safe_priced 3.5) ''Addr1''
          (run cfg_two [NewToken (env_safe_priced 1) (details ''Addr1'')] initial)) = Some 3.5 \<and>
   priceIncreaseOver200 3.5 (price token1) \<and>
   (0::real) < 3.5 \<and> (3.6::real) \<le> 3 * 3.5 \<and>
   fst (getCurrentPrice (env_safe_priced 3.6) ''Addr1'' (pollCycle (env_safe_priced 3.5)
          (run cfg_two [NewToken (env_safe_priced 1) (details ''Addr1'')] initial))) = Some 3.6 \<and>
   buyCount ''Addr1'' (pollCycle (env_safe_priced 3.5)
       (run cfg_two [NewToken (env_safe_priced 1) (details ''Addr1'')] initial)) = 1 \<and>
   buyCount ''Addr1'' (pollCycle (env_safe_priced 3.6) (pollCycle (env_safe_priced 3.5)
       (run cfg_two [NewToken (env_safe_priced 1) (details ''Addr1'')] initial))) = 1 \<and>
   buyCount ''Addr1''
     (checkTokens (env_safe_priced 3.6)
        (getActiveTokens (tokens (run cfg_two [NewToken (env_safe_priced 1) (details ''Addr1'')] initial)))
        (pollCycle (env_safe_priced 3.5)
           (run cfg_two [NewToken (env_safe_priced 1) (details ''Addr1'')] initial))) = 2 \<and>
   swaps (checkToken (env_safe_priced 3.6) token1 initial) = [(None, ''Addr1'')]"
proof -
  have r: "getToken ''Addr1'' (tokens (run cfg_two [NewToken (env_safe_priced 1) (details ''Addr1'')] initial))
     = Some token1"
    unfolding scenario1 by (simp add: token1_def)
  have st: "status token1 = Active"
    by (simp add: token1_def)
  have p1: "fst (getCurrentPrice (env_safe_priced 3.5) ''Addr1''
          (run cfg_two [NewToken (env_safe_priced 1) (details ''Addr1'')] initial)) = Some 3.5"
    by (simp add: observed_safe_priced)
  have tr: "priceIncreaseOver200 3.5 (price token1)"
    by (simp add: priceIncreaseOver200_def token1_def)
  have p2: "fst (getCurrentPrice (env_safe_priced 3.6) ''Addr1'' (pollCycle (env_safe_priced 3.5)
          (run cfg_two [NewToken (env_safe_priced 1) (details ''Addr1'')] initial))) = Some 3.6"
    by (simp add: observed_safe_priced)
  have b0: "buyCount ''Addr1'' (run cfg_two [NewToken (env_safe_priced 1) (details ''Addr1'')] initial) = 0"
    by (simp add: buyCount_def eval_defs)
  have n: "(0::real) < 3.5 \<and> (3.6::real) \<le> 3 * 3.5"
    by simp
  have tr2: "priceIncreaseOver200 3.6 (price token1)"
    by (simp add: priceIncreaseOver200_def token1_def)
  have a1: "tokenAddress token1 = ''Addr1''"
    by (simp add: token1_def)
  have s0: "swaps initial = []"
    by (simp add: initial_def)
  show ?thesis
    using one_buy_per_moving_baseline [OF r st p1 tr, where ?env2.0 = "env_safe_priced 3.6"
            and ?p2.0 = "3.6" and env = "env_safe_priced 3.6" and token = token1 and s = initial]
          r st p1 tr p2 b0 n tr2 a1 s0
    by (simp add: observed_safe_priced del: run.simps)
qed

section \<open>Simulation mode\<close>

lemma processTransaction_simulation:
  "simulation_mode cfg \<Longrightarrow> swaps (snd (processTransaction cfg env addr s)) = swaps s"
  by (simp add: processTransaction_def Let_def)

text \<open>
  C8. With \<^verbatim>\<open>simulation_mode\<close> set, the signal-driven path calls no swap, but the poll
  cycle and the correct-token sweep do: a token enrolled at price 1 and polled at 3.5 is
  bought, and a designation of another address sells the enrolled token and buys the
  designated one. \<^verbatim>\<open>buyToken\<close> and \<^verbatim>\<open>setCorrectToken\<close> never read the flag.
\<close>

theorem simulation_mode_still_trades:
  "simulation_mode cfg_simulation \<and>
   swaps (run cfg_simulation [TokenReceived ''Addr1'', Settled (env_safe_priced 1) 0] initial) = [] \<and>
   swaps (run cfg_simulation [NewToken (env_safe_priced 1) (details ''Addr1''),
                              Poll (env_safe_priced 3.5)] initial) = [(None, ''Addr1'')] \<and>
   swaps (run cfg_simulation [NewToken (env_safe_priced 1) (details ''Addr1''),
                              CorrectToken (env_safe_priced 1) ''AddrX''] initial)
     = [(Some ''Addr1'', ''WSOL''), (None, ''AddrX'')]"
  by (simp add: eval_defs cfg_simulation_def onTokenReceived_def settle_def processTransaction_def)

section \<open>The correct-token sweep\<close>

lemma tokenAddress_sold [simp]: "tokenAddress (sold env cfg r) = tokenAddress r"
  by (simp add: sold_def)

lemma swaps_sellIncorrect:
  "swaps (sellIncorrect env cfg correct ts s) =
     swaps s @ map (\<lambda>t. (Some (tokenAddress t), wsol_pc_mint cfg))
                   (filter (\<lambda>t. tokenAddress t \<noteq> correct) ts)"
  by (induction ts arbitrary: s) (simp_all split: sum.splits)

lemma logs_sellIncorrect_mono:
  "set (logs s) \<subseteq> set (logs (sellIncorrect env cfg correct ts s))"
proof (induction ts arbitrary: s)
  case Nil
  then show ?case by simp
next
  case (Cons t ts)
  let ?s1 = "if tokenAddress t \<noteq> correct
        then (case createSwapTransaction env (Some (tokenAddress t)) (wsol_pc_mint cfg) of
                Inl e \<Rightarrow>
                  logger ERROR (''Error selling token '' @ tokenAddress t @ '':'')
                    (swapCalled (Some (tokenAddress t)) (wsol_pc_mint cfg) s)
              | Inr txid \<Rightarrow>
                  (let s1 = logger INFO (''Sold incorrect token '' @ tokenAddress t)
                              (swapCalled (Some (tokenAddress t)) (wsol_pc_mint cfg) s)
                   in s1\<lparr>tokens := updateTokenStatus (tokenAddress t) Inactive (now env) (tokens s1)\<rparr>))
        else s"
  have one: "set (logs s) \<subseteq> set (logs ?s1)"
    by (auto split: sum.splits)
  have rest: "set (logs ?s1) \<subseteq> set (logs (sellIncorrect env cfg correct ts ?s1))"
    by (rule Cons.IH)
  show ?case
    unfolding sellIncorrect.simps using one rest by (rule subset_trans)
qed

lemma logs_sellIncorrect:
  "t \<in> set ts \<Longrightarrow> tokenAddress t \<noteq> correct \<Longrightarrow> sellThrows env cfg (tokenAddress t) \<Longrightarrow>
   (ERROR, ''Error selling token '' @ tokenAddress t @ '':'') \<in> set (logs (sellIncorrect env cfg correct ts s))"
proof (induction ts arbitrary: s)
  case Nil
  then show ?case by simp
next
  case (Cons u ts)
  show ?case
  proof (cases "t = u")
    case True
    let ?s1 = "logger ERROR (''Error selling token '' @ tokenAddress u @ '':'')
                    (swapCalled (Some (tokenAddress u)) (wsol_pc_mint cfg) s)"
    obtain e where thrown: "createSwapTransaction env (Some (tokenAddress u)) (wsol_pc_mint cfg) = Inl e"
      using Cons.prems(3) True by (auto simp: sellThrows_def split: sum.splits)
    have step: "sellIncorrect env cfg correct (u # ts) s = sellIncorrect env cfg correct ts ?s1"
      using thrown Cons.prems(2) True by simp
    have "(ERROR, ''Error selling token '' @ tokenAddress u @ '':'') \<in> set (logs ?s1)"
      by simp
    then have "(ERROR, ''Error selling token '' @ tokenAddress u @ '':'')
                 \<in> set (logs (sellIncorrect env cfg correct ts ?s1))"
      using logs_sellIncorrect_mono [of ?s1 env cfg correct ts] by blast
    then show ?thesis
      unfolding step True .
  next
    case False
    then have "t \<in> set ts" using Cons.prems(1) by simp
    then show ?thesis using Cons.IH Cons.prems(2,3) by simp
  qed
qed

lemma tokens_sell_one:
  "tokens (if tokenAddress token \<noteq> correct
        then (case createSwapTransaction env (Some (tokenAddress token)) (wsol_pc_mint cfg) of
                Inl e \<Rightarrow>
                  logger ERROR (''Error selling token '' @ tokenAddress token @ '':'')
                    (swapCalled (Some (tokenAddress token)) (wsol_pc_mint cfg) s)
              | Inr txid \<Rightarrow>
                  (let s1 = logger INFO (''Sold incorrect token '' @ tokenAddress token)
                              (swapCalled (Some (tokenAddress token)) (wsol_pc_mint cfg) s)
                   in s1\<lparr>tokens := updateTokenStatus (tokenAddress token) Inactive (now env) (tokens s1)\<rparr>))
        else s) =
   map (\<lambda>r. if tokenAddress r = tokenAddress token \<and> tokenAddress token \<noteq> correct
             then sold env cfg r else r) (tokens s)"
  by (cases "createSwapTransaction env (Some (tokenAddress token)) (wsol_pc_mint cfg)")
     (simp_all add: updateTokenStatus_def sold_def sellThrows_def cong: if_cong)

lemma getToken_sell_one:
  "getToken a (tokens (if tokenAddress token \<noteq> correct
        then (case createSwapTransaction env (Some (tokenAddress token)) (wsol_pc_mint cfg) of
                Inl e \<Rightarrow>
                  logger ERROR (''Error selling token '' @ tokenAddress token @ '':'')
                    (swapCalled (Some (tokenAddress token)) (wsol_pc_mint cfg) s)
              | Inr txid \<Rightarrow>
                  (let s1 = logger INFO (''Sold incorrect token '' @ tokenAddress token)
                              (swapCalled (Some (tokenAddress token)) (wsol_pc_mint cfg) s)
                   in s1\<lparr>tokens := updateTokenStatus (tokenAddress token) Inactive (now env) (tokens s1)\<rparr>))
        else s)) =
   (if a = tokenAddress token \<and> a \<noteq> correct then map_option (sold env cfg) (getToken a (tokens s))
    else getToken a (tokens s))"
proof (cases "tokenAddress token \<noteq> correct")
  case True
  then have "(\<lambda>r. if tokenAddress r = tokenAddress token \<and> tokenAddress token \<noteq> correct
             then sold env cfg r else r) =
        (\<lambda>r. if tokenAddress r = tokenAddress token then sold env cfg r else r)"
    by auto
  then show ?thesis
    unfolding tokens_sell_one using True by (auto simp: getToken_map_at)
next
  case False
  then show ?thesis by auto
qed

lemma getToken_sellIncorrect:
  "distinct (map tokenAddress ts) \<Longrightarrow>
   getToken a (tokens (sellIncorrect env cfg correct ts s)) =
     (if a \<in> set (map tokenAddress ts) \<and> a \<noteq> correct
      then map_option (sold env cfg) (getToken a (tokens s))
      else getToken a (tokens s))"
proof (induction ts arbitrary: s)
  case Nil
  then show ?case by simp
next
  case (Cons t ts)
  have d: "distinct (map tokenAddress ts)" and fresh: "tokenAddress t \<notin> set (map tokenAddress ts)"
    using Cons.prems by simp_all
  show ?case
    unfolding sellIncorrect.simps Cons.IH [OF d] getToken_sell_one
    using fresh by auto
qed

text \<open>
  C7, as stated, fails: with one active token, a designation of an address without a row
  whose price request yields no price, while the sell is rejected, leaves the active token
  active, enrolls nothing for the designated address and buys nothing.
\<close>

theorem correct_token_sweep_counterexample:
  "status_of (tokens (run cfg_two [NewToken (env_safe_priced 1) (details ''Addr1'')] initial)) ''Addr1''
     = Some Active \<and>
   getToken ''AddrX'' (tokens (run cfg_two [NewToken (env_safe_priced 1) (details ''Addr1'')] initial)) = None \<and>
   status_of (tokens (run cfg_two [NewToken (env_safe_priced 1) (details ''Addr1''),
                                   CorrectToken env_swap_rejects ''AddrX''] initial)) ''Addr1'' = Some Active \<and>
   getToken ''AddrX'' (tokens (run cfg_two [NewToken (env_safe_priced 1) (details ''Addr1''),
                                   CorrectToken env_swap_rejects ''AddrX''] initial)) = None \<and>
   swaps (run cfg_two [NewToken (env_safe_priced 1) (details ''Addr1''),
                       CorrectToken env_swap_rejects ''AddrX''] initial) = [(Some ''Addr1'', ''WSOL'')]"
  by (simp add: eval_defs env_swap_rejects_def)

lemma setCorrectToken_swept:
  "setCorrectToken env cfg correct s =
     (case getToken correct (tokens (swept env cfg correct s)) of
        Some correctToken \<Rightarrow> swept env cfg correct s
      | None \<Rightarrow>
          (case observedPrice env correct of
             None \<Rightarrow> snd (getCurrentPrice env correct (swept env cfg correct s))
           | Some p \<Rightarrow> buyToken env correct
                         (addToken env correct p (snd (getCurrentPrice env correct (swept env cfg correct s))))))"
  by (simp add: setCorrectToken_def swept_def Let_def split_beta split: option.splits)

lemma swaps_swept:
  "swaps (swept env cfg correct s) =
     swaps s @ map (\<lambda>t. (Some (tokenAddress t), wsol_pc_mint cfg))
                   (filter (\<lambda>t. tokenAddress t \<noteq> correct) (getActiveTokens (tokens s)))"
  by (simp add: swept_def swaps_sellIncorrect)

lemma getToken_swept:
  assumes "distinct (map tokenAddress (tokens s))"
  shows "getToken a (tokens (swept env cfg correct s)) =
           (case getToken a (tokens s) of
              None \<Rightarrow> None
            | Some r \<Rightarrow> if status r = Active \<and> a \<noteq> correct then Some (sold env cfg r) else Some r)"
  using assms
  by (simp add: swept_def getToken_sellIncorrect distinct_getActiveTokens getToken_member
        getToken_getActiveTokens del: set_map split: option.splits)

lemma logs_getCurrentPrice: "set (logs s) \<subseteq> set (logs (snd (getCurrentPrice env addr s)))"
  by (auto simp: getCurrentPrice_def split: sum.splits option.splits)

lemma logs_addToken: "set (logs s) \<subseteq> set (logs (addToken env addr p s))"
  by (auto simp: addToken_def logger_def)

lemma logs_buyToken: "set (logs s) \<subseteq> set (logs (buyToken env addr s))"
  by (auto simp: buyToken_def split: sum.splits)

lemma logs_setCorrectToken:
  "set (logs (swept env cfg correct s)) \<subseteq> set (logs (setCorrectToken env cfg correct s))"
proof -
  have "set (logs (swept env cfg correct s))
          \<subseteq> set (logs (buyToken env correct
                 (addToken env correct p (snd (getCurrentPrice env correct (swept env cfg correct s))))))" for p
    using logs_getCurrentPrice [of "swept env cfg correct s" env correct]
      logs_addToken [of "snd (getCurrentPrice env correct (swept env cfg correct s))" env correct p]
      logs_buyToken [of "addToken env correct p (snd (getCurrentPrice env correct (swept env cfg correct s)))"
                        env correct]
    by blast
  then show ?thesis
    using logs_getCurrentPrice [of "swept env cfg correct s" env correct]
    by (simp add: setCorrectToken_swept split: option.splits)
qed

lemma getToken_in_set: "getToken a rows = Some r \<Longrightarrow> r \<in> set rows"
  by (auto simp: getToken_def find_Some_iff)

lemma sell_error_logged:
  assumes "distinct (map tokenAddress (tokens s))"
    and "getToken a (tokens s) = Some r" and "status r = Active" and "a \<noteq> correct"
    and "sellThrows env cfg a"
  shows "(ERROR, ''Error selling token '' @ a @ '':'') \<in> set (logs (setCorrectToken env cfg correct s))"
proof -
  have addr: "tokenAddress r = a"
    using assms(2) by (rule getToken_address)
  have "getToken a (getActiveTokens (tokens s)) = Some r"
    using assms(2,3) by (simp add: getToken_getActiveTokens [OF assms(1)])
  then have "r \<in> set (getActiveTokens (tokens s))"
    by (rule getToken_in_set)
  then have "(ERROR, ''Error selling token '' @ tokenAddress r @ '':'')
      \<in> set (logs (swept env cfg correct s))"
    unfolding swept_def using assms(4,5) addr by (intro logs_sellIncorrect) simp_all
  then show ?thesis
    using logs_setCorrectToken [of env cfg correct s] addr by auto
qed

text \<open>
  C7, amended. In every state reached from the initial one, \<^verbatim>\<open>setCorrectToken\<close> for
  an address calls one sell for every active token with another address, in table order,
  whatever the earlier sells answered, and then, when the designated address has no row
  and a price is fetched for it, one buy of the designated address. An active token with
  another address whose sell is rejected keeps its row and the error is logged; otherwise
  its row becomes inactive with the time of the sweep as last check. A designated address
  without a row is enrolled as active with the fetched price, and gets no row when no
  price is fetched.
\<close>

theorem correct_token_sweep:
  "swaps (setCorrectToken env cfg correct (run cfg es initial)) =
     swaps (run cfg es initial) @
     map (\<lambda>t. (Some (tokenAddress t), wsol_pc_mint cfg))
         (filter (\<lambda>t. tokenAddress t \<noteq> correct) (getActiveTokens (tokens (run cfg es initial)))) @
     (if getToken correct (tokens (run cfg es initial)) = None \<and>
         fst (getCurrentPrice env correct (run cfg es initial)) \<noteq> None
      then [(None, correct)] else []) \<and>
   (getToken a (tokens (run cfg es initial)) = Some r \<and> status r = Active \<and> a \<noteq> correct \<longrightarrow>
      (if \<exists>e. createSwapTransaction env (Some a) (wsol_pc_mint cfg) = Inl e
       then getToken a (tokens (setCorrectToken env cfg correct (run cfg es initial))) = Some r \<and>
            (ERROR, ''Error selling token '' @ a @ '':'')
              \<in> set (logs (setCorrectToken env cfg correct (run cfg es initial)))
       else getToken a (tokens (setCorrectToken env cfg correct (run cfg es initial))) =
              Some (r\<lparr>status := Inactive, lastCheck := now env\<rparr>))) \<and>
   (getToken correct (tokens (run cfg es initial)) = None \<longrightarrow>
      getToken correct (tokens (setCorrectToken env cfg correct (run cfg es initial))) =
        (case fst (getCurrentPrice env correct (run cfg es initial)) of
           None \<Rightarrow> None
         | Some p \<Rightarrow> Some \<lparr>tokenAddress = correct, timestamp = now env, price = p,
                            lastCheck = now env, status = Active\<rparr>))"
proof -
  let ?s = "run cfg es initial"
  have d: "distinct (map tokenAddress (tokens ?s))"
    by (rule distinct_reachable)
  have same: "getToken correct (tokens (swept env cfg correct ?s)) = getToken correct (tokens ?s)"
    by (simp add: getToken_swept [OF d] split: option.splits)
  have trades: "swaps (setCorrectToken env cfg correct ?s) =
     swaps ?s @
     map (\<lambda>t. (Some (tokenAddress t), wsol_pc_mint cfg))
         (filter (\<lambda>t. tokenAddress t \<noteq> correct) (getActiveTokens (tokens ?s))) @
     (if getToken correct (tokens ?s) = None \<and> fst (getCurrentPrice env correct ?s) \<noteq> None
      then [(None, correct)] else [])"
    by (auto simp: setCorrectToken_swept same swaps_swept split: option.splits)
  have others: "getToken a (tokens ?s) = Some r \<and> status r = Active \<and> a \<noteq> correct \<longrightarrow>
      (if \<exists>e. createSwapTransaction env (Some a) (wsol_pc_mint cfg) = Inl e
       then getToken a (tokens (setCorrectToken env cfg correct ?s)) = Some r \<and>
            (ERROR, ''Error selling token '' @ a @ '':'') \<in> set (logs (setCorrectToken env cfg correct ?s))
       else getToken a (tokens (setCorrectToken env cfg correct ?s)) =
              Some (r\<lparr>status := Inactive, lastCheck := now env\<rparr>))"
  proof (intro impI, elim conjE)
    assume r: "getToken a (tokens ?s) = Some r" and act: "status r = Active" and other: "a \<noteq> correct"
    have addr: "tokenAddress r = a"
      using r by (rule getToken_address)
    have throws: "sellThrows env cfg a \<longleftrightarrow> (\<exists>e. createSwapTransaction env (Some a) (wsol_pc_mint cfg) = Inl e)"
      by (auto simp: sellThrows_def split: sum.splits)
    have row: "getToken a (tokens (setCorrectToken env cfg correct ?s)) = Some (sold env cfg r)"
      using r act other
      by (auto simp: setCorrectToken_swept getToken_swept [OF d] getToken_addToken split: option.splits)
    show "if \<exists>e. createSwapTransaction env (Some a) (wsol_pc_mint cfg) = Inl e
       then getToken a (tokens (setCorrectToken env cfg correct ?s)) = Some r \<and>
            (ERROR, ''Error selling token '' @ a @ '':'') \<in> set (logs (setCorrectToken env cfg correct ?s))
       else getToken a (tokens (setCorrectToken env cfg correct ?s)) =
              Some (r\<lparr>status := Inactive, lastCheck := now env\<rparr>)"
    proof (cases "sellThrows env cfg a")
      case True
      then show ?thesis
        using row addr throws sell_error_logged [OF d r act other True] by (simp add: sold_def)
    next
      case False
      then show ?thesis
        using row addr throws by (simp add: sold_def)
    qed
  qed
  have designated: "getToken correct (tokens ?s) = None \<longrightarrow>
      getToken correct (tokens (setCorrectToken env cfg correct ?s)) =
        (case fst (getCurrentPrice env correct ?s) of
           None \<Rightarrow> None
         | Some p \<Rightarrow> Some \<lparr>tokenAddress = correct, timestamp = now env, price = p,
                            lastCheck = now env, status = Active\<rparr>)"
    by (auto simp: setCorrectToken_swept same getToken_addToken split: option.splits)
  show ?thesis using trades others designated by blast
qed

lemma two_enrolled:
  "tokens (run cfg_two [NewToken (env_safe_priced 1) (details ''Addr1''),
                        NewToken (env_safe_priced 1) (details ''Addr2'')] initial) = [token1, token2]"
  by (simp add: eval_defs token1_def token2_def)

lemma two_enrolled_swaps:
  "swaps (run cfg_two [NewToken (env_safe_priced 1) (details ''Addr1''),
                       NewToken (env_safe_priced 1) (details ''Addr2'')] initial) = []"
  by (simp add: eval_defs)

theorem correct_token_sweep_witness:
  "getToken ''Addr1'' (tokens (run cfg_two [NewToken (env_safe_priced 1) (details ''Addr1''),
       NewToken (env_safe_priced 1) (details ''Addr2'')] initial)) = Some token1 \<and>
   status token1 = Active \<and> ''Addr1'' \<noteq> ''AddrX'' \<and>
   createSwapTransaction env_first_sell_rejects (Some ''Addr1'') (wsol_pc_mint cfg_two)
     = Inl (Error ''sell failed'') \<and>
   getToken ''Addr2'' (tokens (run cfg_two [NewToken (env_safe_priced 1) (details ''Addr1''),
       NewToken (env_safe_priced 1) (details ''Addr2'')] initial)) = Some token2 \<and>
   status token2 = Active \<and> ''Addr2'' \<noteq> ''AddrX'' \<and>
   createSwapTransaction env_first_sell_rejects (Some ''Addr2'') (wsol_pc_mint cfg_two)
     = Inr (Some ''tx'') \<and>
   getToken ''AddrX'' (tokens (run cfg_two [NewToken (env_safe_priced 1) (details ''Addr1''),
       NewToken (env_safe_priced 1) (details ''Addr2'')] initial)) = None \<and>
   swaps (setCorrectToken env_first_sell_rejects cfg_two ''AddrX''
       (run cfg_two [NewToken (env_safe_priced 1) (details ''Addr1''),
                     NewToken (env_safe_priced 1) (details ''Addr2'')] initial))
     = [(Some ''Addr1'', ''WSOL''), (Some ''Addr2'', ''WSOL''), (None, ''AddrX'')] \<and>
   getToken ''Addr1'' (tokens (setCorrectToken env_first_sell_rejects cfg_two ''AddrX''
       (run cfg_two [NewToken (env_safe_priced 1) (details ''Addr1''),
                     NewToken (env_safe_priced 1) (details ''Addr2'')] initial))) = Some token1 \<and>
   (ERROR, ''Error selling token Addr1:'')
     \<in> set (logs (setCorrectToken env_first_sell_rejects cfg_two ''AddrX''
       (run cfg_two [NewToken (env_safe_priced 1) (details ''Addr1''),
                     NewToken (env_safe_priced 1) (details ''Addr2'')] initial))) \<and>
   getToken ''Addr2'' (tokens (setCorrectToken env_first_sell_rejects cfg_two ''AddrX''
       (run cfg_two [NewToken (env_safe_priced 1) (details ''Addr1''),
                     NewToken (env_safe_priced 1) (details ''Addr2'')] initial)))
     = Some (token2\<lparr>status := Inactive, lastCheck := 3000\<rparr>) \<and>
   getToken ''AddrX'' (tokens (setCorrectToken env_first_sell_rejects cfg_two ''AddrX''
       (run cfg_two [NewToken (env_safe_priced 1) (details ''Addr1''),
                     NewToken (env_safe_priced 1) (details ''Addr2'')] initial)))
     = Some \<lparr>tokenAddress = ''AddrX'', timestamp = 3000, price = 4, lastCheck = 3000, status = Active\<rparr>"
proof -
  let ?es = "[NewToken (env_safe_priced 1) (details ''Addr1''),
              NewToken (env_safe_priced 1) (details ''Addr2'')]"
  have g1: "getToken ''Addr1'' (tokens (run cfg_two ?es initial)) = Some token1"
    unfolding two_enrolled by (simp add: token1_def)
  have g2: "getToken ''Addr2'' (tokens (run cfg_two ?es initial)) = Some token2"
    unfolding two_enrolled by (simp add: token1_def token2_def)
  have gx: "getToken ''AddrX'' (tokens (run cfg_two ?es initial)) = None"
    unfolding two_enrolled by (simp add: token1_def token2_def)
  have st: "status token1 = Active" "status token2 = Active"
    by (simp_all add: token1_def token2_def)
  have c1: "createSwapTransaction env_first_sell_rejects (Some ''Addr1'') (wsol_pc_mint cfg_two)
     = Inl (Error ''sell failed'')"
    by (simp add: env_first_sell_rejects_def)
  have c2: "createSwapTransaction env_first_sell_rejects (Some ''Addr2'') (wsol_pc_mint cfg_two)
     = Inr (Some ''tx'')"
    by (simp add: env_first_sell_rejects_def)
  have px: "fst (getCurrentPrice env_first_sell_rejects ''AddrX'' (run cfg_two ?es initial)) = Some 4"
    by (simp add: observedPrice_def env_first_sell_rejects_def)
  have act: "getActiveTokens (tokens (run cfg_two ?es initial)) = [token1, token2]"
    unfolding two_enrolled by (simp add: getActiveTokens_def token1_def token2_def)
  have nw: "now env_first_sell_rejects = 3000" "wsol_pc_mint cfg_two = ''WSOL''"
    by (simp_all add: env_first_sell_rejects_def cfg_two_def)
  have ad: "tokenAddress token1 = ''Addr1''" "tokenAddress token2 = ''Addr2''"
    by (simp_all add: token1_def token2_def)
  show ?thesis
    using correct_token_sweep [of env_first_sell_rejects cfg_two "''AddrX''" ?es "''Addr1''" token1]
          correct_token_sweep [of env_first_sell_rejects cfg_two "''AddrX''" ?es "''Addr2''" token2]
          g1 g2 gx st c1 c2 px
    by (simp add: act nw ad two_enrolled_swaps del: run.simps)
qed

section \<open>Status changes over runs\<close>







section \<open>Address extraction from signal messages\<close>

lemma solanaAddressRegex_nonempty: "solanaAddressRegex a \<Longrightarrow> a \<noteq> []"
  by (auto simp: solanaAddressRegex_def)

lemma extractSolanaAddress_Some:
  "extractSolanaAddress message = Some a \<longleftrightarrow>
     (\<exists>i<length (split_lines message).
        a = trim (split_lines message ! i) \<and> solanaAddressRegex a \<and>
        (\<forall>j<i. \<not> solanaAddressRegex (trim (split_lines message ! j))))"
  by (auto simp: extractSolanaAddress_def find_Some_iff)

lemma extractSolanaAddress_None:
  "extractSolanaAddress message = None \<longleftrightarrow>
     (\<forall>l\<in>set (split_lines message). \<not> solanaAddressRegex (trim l))"
  by (auto simp: extractSolanaAddress_def find_None_iff)

lemma extractSolanaAddress_nonempty: "extractSolanaAddress message = Some a \<Longrightarrow> a \<noteq> []"
  unfolding extractSolanaAddress_Some using solanaAddressRegex_nonempty by blast

lemma DexAnalyseManagerService_emits:
  "fst (DexAnalyseManagerService_analyseTelegramMessage hasCallback message channelId channelName) =
     (if allowListed channelId \<and> hasCallback
      then (case extractSolanaAddress message of None \<Rightarrow> [] | Some a \<Rightarrow> [OnTokenReceivedCall a])
      else [])"
  by (auto simp: DexAnalyseManagerService_analyseTelegramMessage_def Let_def
           dest: extractSolanaAddress_nonempty split: option.splits)

lemma extractTokenAddress_None:
  "extractTokenAddress message = None \<longleftrightarrow> (\<forall>i<length message. base58Run message i < 32)"
proof (induction message)
  case Nil
  then show ?case by simp
next
  case (Cons c cs)
  have shift: "(\<forall>i<length (c # cs). base58Run (c # cs) i < 32) \<longleftrightarrow>
               base58Run (c # cs) 0 < 32 \<and> (\<forall>i<length cs. base58Run cs i < 32)"
    by (auto simp: base58Run_def less_Suc_eq_0_disj)
  show ?case
    unfolding shift using Cons.IH by (auto simp: Let_def base58Run_def)
qed

lemma extractTokenAddress_Some:
  "extractTokenAddress message = Some a \<longleftrightarrow>
     (\<exists>k<length message. (\<forall>i<k. base58Run message i < 32) \<and> 32 \<le> base58Run message k \<and>
        a = take 44 (takeWhile isBase58 (drop k message)))"
proof (induction message)
  case Nil
  then show ?case by simp
next
  case (Cons c cs)
  show ?case
  proof (cases "32 \<le> base58Run (c # cs) 0")
    case True
    have rhs: "(\<exists>k<length (c # cs). (\<forall>i<k. base58Run (c # cs) i < 32) \<and> 32 \<le> base58Run (c # cs) k \<and>
        a = take 44 (takeWhile isBase58 (drop k (c # cs)))) \<longleftrightarrow>
        a = take 44 (takeWhile isBase58 (c # cs))"
    proof
      assume "\<exists>k<length (c # cs). (\<forall>i<k. base58Run (c # cs) i < 32) \<and> 32 \<le> base58Run (c # cs) k \<and>
        a = take 44 (takeWhile isBase58 (drop k (c # cs)))"
      then obtain k where k: "\<forall>i<k. base58Run (c # cs) i < 32"
        and a: "a = take 44 (takeWhile isBase58 (drop k (c # cs)))"
        by blast
      have "k = 0"
      proof (rule ccontr)
        assume "k \<noteq> 0"
        then have "base58Run (c # cs) 0 < 32" using k by simp
        then show False using True by simp
      qed
      then show "a = take 44 (takeWhile isBase58 (c # cs))" using a by simp
    next
      assume "a = take 44 (takeWhile isBase58 (c # cs))"
      then have "0 < length (c # cs) \<and> (\<forall>i<0. base58Run (c # cs) i < 32) \<and>
                 32 \<le> base58Run (c # cs) 0 \<and> a = take 44 (takeWhile isBase58 (drop 0 (c # cs)))"
        using True by simp
      then show "\<exists>k<length (c # cs). (\<forall>i<k. base58Run (c # cs) i < 32) \<and> 32 \<le> base58Run (c # cs) k \<and>
        a = take 44 (takeWhile isBase58 (drop k (c # cs)))"
        by blast
    qed
    have lhs: "extractTokenAddress (c # cs) = Some (take 44 (takeWhile isBase58 (c # cs)))"
      using True by (simp add: Let_def base58Run_def)
    show ?thesis unfolding lhs rhs by (simp only: option.inject eq_commute)
  next
    case False
    have step: "extractTokenAddress (c # cs) = extractTokenAddress cs"
      using False by (simp add: Let_def base58Run_def)
    have shifted: "(\<exists>k<length (c # cs). (\<forall>i<k. base58Run (c # cs) i < 32) \<and> 32 \<le> base58Run (c # cs) k \<and>
        a = take 44 (takeWhile isBase58 (drop k (c # cs)))) \<longleftrightarrow>
        (\<exists>k<length cs. (\<forall>i<k. base58Run cs i < 32) \<and> 32 \<le> base58Run cs k \<and>
        a = take 44 (takeWhile isBase58 (drop k cs)))"
    proof
      assume "\<exists>k<length (c # cs). (\<forall>i<k. base58Run (c # cs) i < 32) \<and> 32 \<le> base58Run (c # cs) k \<and>
        a = take 44 (takeWhile isBase58 (drop k (c # cs)))"
      then obtain k where k: "k < length (c # cs)" "\<forall>i<k. base58Run (c # cs) i < 32"
        "32 \<le> base58Run (c # cs) k" "a = take 44 (takeWhile isBase58 (drop k (c # cs)))"
        by blast
      from k(3) False obtain k' where k': "k = Suc k'"
        by (cases k) auto
      have "\<forall>i<k'. base58Run cs i < 32"
      proof (intro allI impI)
        fix i assume "i < k'"
        then have "base58Run (c # cs) (Suc i) < 32" using k(2) k' by simp
        then show "base58Run cs i < 32" by (simp add: base58Run_def)
      qed
      then have "k' < length cs \<and> (\<forall>i<k'. base58Run cs i < 32) \<and> 32 \<le> base58Run cs k' \<and>
        a = take 44 (takeWhile isBase58 (drop k' cs))"
        using k k' by (simp add: base58Run_def)
      then show "\<exists>k<length cs. (\<forall>i<k. base58Run cs i < 32) \<and> 32 \<le> base58Run cs k \<and>
        a = take 44 (takeWhile isBase58 (drop k cs))"
        by blast
    next
      assume "\<exists>k<length cs. (\<forall>i<k. base58Run cs i < 32) \<and> 32 \<le> base58Run cs k \<and>
        a = take 44 (takeWhile isBase58 (drop k cs))"
      then obtain k where k: "k < length cs" "\<forall>i<k. base58Run cs i < 32"
        "32 \<le> base58Run cs k" "a = take 44 (takeWhile isBase58 (drop k cs))"
        by blast
      have "\<forall>i<Suc k. base58Run (c # cs) i < 32"
      proof (intro allI impI)
        fix i assume i: "i < Suc k"
        show "base58Run (c # cs) i < 32"
        proof (cases i)
          case 0
          then show ?thesis using False by simp
        next
          case (Suc i')
          then have "base58Run cs i' < 32" using k(2) i by simp
          then show ?thesis using Suc by (simp add: base58Run_def)
        qed
      qed
      then have "Suc k < length (c # cs) \<and> (\<forall>i<Suc k. base58Run (c # cs) i < 32) \<and>
        32 \<le> base58Run (c # cs) (Suc k) \<and> a = take 44 (takeWhile isBase58 (drop (Suc k) (c # cs)))"
        using k by (simp add: base58Run_def)
      then show "\<exists>k<length (c # cs). (\<forall>i<k. base58Run (c # cs) i < 32) \<and> 32 \<le> base58Run (c # cs) k \<and>
        a = take 44 (takeWhile isBase58 (drop k (c # cs)))"
        by blast
    qed
    show ?thesis unfolding step shifted by (rule Cons.IH)
  qed
qed

lemma extractTokenAddress_shape:
  assumes "extractTokenAddress message = Some a"
  shows "32 \<le> length a \<and> length a \<le> 44 \<and> list_all isBase58 a \<and>
         (\<exists>before after. message = before @ a @ after)"
proof -
  from assms obtain k where k: "32 \<le> base58Run message k"
    and a: "a = take 44 (takeWhile isBase58 (drop k message))"
    by (auto simp: extractTokenAddress_Some)
  have len: "32 \<le> length a \<and> length a \<le> 44"
    using k a by (simp add: base58Run_def)
  have "set a \<subseteq> set (takeWhile isBase58 (drop k message))"
    unfolding a by (rule set_take_subset)
  then have all: "list_all isBase58 a"
    by (auto simp: list_all_iff dest: set_takeWhileD)
  have "message = take k message @ drop k message"
    by simp
  also have "drop k message = takeWhile isBase58 (drop k message) @ dropWhile isBase58 (drop k message)"
    by simp
  also have "takeWhile isBase58 (drop k message) =
      a @ drop 44 (takeWhile isBase58 (drop k message))"
    unfolding a by simp
  finally have "message = take k message @ a @
      (drop 44 (takeWhile isBase58 (drop k message)) @ dropWhile isBase58 (drop k message))"
    by simp
  then have "\<exists>before after. message = before @ a @ after"
    by blast
  then show ?thesis using len all by simp
qed

lemma AnalyseManagerService_emits:
  "fst (AnalyseManagerService_analyseTelegramMessage hasMonitor hasCallback message channelId channelName) =
     (if allowListed channelId
      then (case extractTokenAddress message of
              None \<Rightarrow> []
            | Some a \<Rightarrow> (if hasMonitor then [SetCorrectTokenCall a] else []) @
                        (if hasCallback then [OnTokenReceivedCall a] else []))
      else [])"
proof -
  have "extractTokenAddress message = Some a \<Longrightarrow> a \<noteq> []" for a
    using extractTokenAddress_shape [of message a] by auto
  then show ?thesis
    by (auto simp: AnalyseManagerService_analyseTelegramMessage_def Let_def split: option.splits)
qed

lemma split_lines_message_lines:
  "split_lines message_lines =
     [''New gem:'', ''  BBc9zfiSMgqmmTqtFGE1xHzb1XcPzYSLQNLYTVoMpump '', ''buy now'']"
  by (simp add: message_lines_def)

lemma split_lines_message_inline: "split_lines message_inline = [message_inline]"
  by (simp add: message_inline_def)

text \<open>
  C9, as stated, fails for \<^verbatim>\<open>AnalyseManagerService\<close>: an allow-listed message of one
  line that does not match the 44-character pattern after trimming, but contains 32
  characters of the class in a row, emits a discovery event with these 32 characters.
\<close>

theorem address_extraction_counterexample:
  "allowListed ''1625691880'' \<and>
   split_lines message_inline = [message_inline] \<and>
   \<not> solanaAddressRegex (trim message_inline) \<and>
   fst (AnalyseManagerService_analyseTelegramMessage True True message_inline ''1625691880'' ''Crypto Pump Club'')
     = [SetCorrectTokenCall ''11111111111111111111111111111111'',
        OnTokenReceivedCall ''11111111111111111111111111111111''] \<and>
   length ''11111111111111111111111111111111'' = 32"
  by (simp add: split_lines_message_inline AnalyseManagerService_emits allowListed_def)
     (simp add: message_inline_def solanaAddressRegex_def trim_def isWhiteSpace_def isBase58_def)

text \<open>
  C9, amended. \<^verbatim>\<open>DexAnalyseManagerService.extractSolanaAddress\<close> returns the trimmed
  form of the first line whose trimmed form consists of exactly 44 characters of the class,
  and nothing when no line does; its handler calls the callback with that address for an
  allow-listed channel and emits nothing otherwise.
  \<^verbatim>\<open>AnalyseManagerService.extractTokenAddress\<close> returns, from the leftmost position
  where at least 32 characters of the class follow each other, up to 44 of them: a part of
  the message of 32 to 44 characters of the class, wherever it stands in a line, and
  nothing when no such position exists; its handler calls the monitor and the callback with
  that address for an allow-listed channel and emits nothing otherwise.
\<close>

theorem address_extraction:
  "(extractSolanaAddress message = Some a \<longleftrightarrow>
      (\<exists>i<length (split_lines message).
         a = trim (split_lines message ! i) \<and> solanaAddressRegex a \<and>
         (\<forall>j<i. \<not> solanaAddressRegex (trim (split_lines message ! j))))) \<and>
   (extractSolanaAddress message = None \<longleftrightarrow>
      (\<forall>l\<in>set (split_lines message). \<not> solanaAddressRegex (trim l))) \<and>
   fst (DexAnalyseManagerService_analyseTelegramMessage hasCallback message channelId channelName) =
     (if allowListed channelId \<and> hasCallback
      then (case extractSolanaAddress message of None \<Rightarrow> [] | Some x \<Rightarrow> [OnTokenReceivedCall x])
      else []) \<and>
   (extractTokenAddress message = Some b \<longleftrightarrow>
      (\<exists>k<length message. (\<forall>i<k. base58Run message i < 32) \<and> 32 \<le> base58Run message k \<and>
         b = take 44 (takeWhile isBase58 (drop k message)))) \<and>
   (extractTokenAddress message = Some b \<longrightarrow>
      32 \<le> length b \<and> length b \<le> 44 \<and> list_all isBase58 b \<and>
      (\<exists>before after. message = before @ b @ after)) \<and>
   (extractTokenAddress message = None \<longleftrightarrow> (\<forall>i<length message. base58Run message i < 32)) \<and>
   fst (AnalyseManagerService_analyseTelegramMessage hasMonitor hasCallback message channelId channelName) =
     (if allowListed channelId
      then (case extractTokenAddress message of
              None \<Rightarrow> []
            | Some x \<Rightarrow> (if hasMonitor then [SetCorrectTokenCall x] else []) @
                        (if hasCallback then [OnTokenReceivedCall x] else []))
      else [])"
  using extractSolanaAddress_Some [of message a] extractSolanaAddress_None [of message]
    DexAnalyseManagerService_emits [of hasCallback message channelId channelName]
    extractTokenAddress_Some [of message b] extractTokenAddress_shape [of message b]
    extractTokenAddress_None [of message]
    AnalyseManagerService_emits [of hasMonitor hasCallback message channelId channelName]
  by blast

theorem address_extraction_witness:
  "(\<exists>i<length (split_lines message_lines).
      address44 = trim (split_lines message_lines ! i) \<and> solanaAddressRegex address44 \<and>
      (\<forall>j<i. \<not> solanaAddressRegex (trim (split_lines message_lines ! j)))) \<and>
   extractSolanaAddress message_lines = Some address44 \<and>
   fst (DexAnalyseManagerService_analyseTelegramMessage True message_lines ''1625691880'' ''Crypto Pump Club'')
     = [OnTokenReceivedCall address44] \<and>
   split_lines message_inline = [message_inline] \<and>
   \<not> solanaAddressRegex (trim message_inline) \<and>
   extractSolanaAddress message_inline = None \<and>
   fst (DexAnalyseManagerService_analyseTelegramMessage True message_inline ''1625691880'' ''Crypto Pump Club'')
     = [] \<and>
   extractTokenAddress message_inline = Some ''11111111111111111111111111111111'' \<and>
   list_all isBase58 ''11111111111111111111111111111111'' \<and>
   (\<exists>before after. message_inline = before @ ''11111111111111111111111111111111'' @ after) \<and>
   fst (AnalyseManagerService_analyseTelegramMessage True True message_inline ''1625691880'' ''Crypto Pump Club'')
     = [SetCorrectTokenCall ''11111111111111111111111111111111'',
        OnTokenReceivedCall ''11111111111111111111111111111111'']"
proof -
  have m: "address44 = trim (split_lines message_lines ! 1) \<and> solanaAddressRegex address44"
    by (simp add: split_lines_message_lines trim_def isWhiteSpace_def address44_def
          solanaAddressRegex_def isBase58_def)
  have u: "\<not> solanaAddressRegex (trim (split_lines message_lines ! 0))"
    by (simp add: split_lines_message_lines trim_def isWhiteSpace_def solanaAddressRegex_def)
  have "(1::nat) < length (split_lines message_lines) \<and>
        address44 = trim (split_lines message_lines ! 1) \<and> solanaAddressRegex address44 \<and>
        (\<forall>j<1. \<not> solanaAddressRegex (trim (split_lines message_lines ! j)))"
    using m u by (simp add: split_lines_message_lines)
  then have first: "\<exists>i<length (split_lines message_lines).
      address44 = trim (split_lines message_lines ! i) \<and> solanaAddressRegex address44 \<and>
      (\<forall>j<i. \<not> solanaAddressRegex (trim (split_lines message_lines ! j)))"
    by blast
  have none: "\<forall>l\<in>set (split_lines message_inline). \<not> solanaAddressRegex (trim l)"
    by (simp add: split_lines_message_inline)
       (simp add: message_inline_def solanaAddressRegex_def trim_def isWhiteSpace_def)
  have inline: "extractTokenAddress message_inline = Some ''11111111111111111111111111111111''"
    by (simp add: message_inline_def isBase58_def)
  have listed: "allowListed ''1625691880''"
    by (simp add: allowListed_def)
  note dex = address_extraction [of message_lines address44 True "''1625691880''" "''Crypto Pump Club''"
                 "''11111111111111111111111111111111''" True]
  note ana = address_extraction [of message_inline address44 True "''1625691880''" "''Crypto Pump Club''"
                 "''11111111111111111111111111111111''" True]
  have e1: "extractSolanaAddress message_lines = Some address44"
    using dex first by blast
  have e2: "extractSolanaAddress message_inline = None"
    using ana none by blast
  have shape: "list_all isBase58 ''11111111111111111111111111111111'' \<and>
     (\<exists>before after. message_inline = before @ ''11111111111111111111111111111111'' @ after)"
    using ana inline by blast
  have d1: "fst (DexAnalyseManagerService_analyseTelegramMessage True message_lines ''1625691880''
                   ''Crypto Pump Club'') = [OnTokenReceivedCall address44]"
    using dex e1 listed by simp
  have d2: "fst (DexAnalyseManagerService_analyseTelegramMessage True message_inline ''1625691880''
                   ''Crypto Pump Club'') = []"
    using ana e2 listed by simp
  have a2: "fst (AnalyseManagerService_analyseTelegramMessage True True message_inline ''1625691880''
                   ''Crypto Pump Club'')
     = [SetCorrectTokenCall ''11111111111111111111111111111111'',
        OnTokenReceivedCall ''11111111111111111111111111111111'']"
    using ana inline listed by simp
  have unmatched: "\<not> solanaAddressRegex (trim message_inline)"
    using none by (simp add: split_lines_message_inline)
  show ?thesis
    using first e1 d1 split_lines_message_inline unmatched e2 d2 inline shape a2 by blast
qed

end
